theory Spec2Isabelle
  imports Complex_Main "HOL-Library.Word" "HOL-Library.AList"
begin

unbundle bit_operations_syntax

section \<open>Drawing a shaped line of text (weasyprint/draw/text.py)\<close>

subsection \<open>Numbers\<close>

text \<open>
  Python's floats are modelled by rationals: the arithmetic of the source is kept (its
  order of operations, its rounding to integers). The rounding of the binary
  representation is kept where an integer is cut from a sum of floats, in the kerning
  (\<open>float_sum\<close> below), and left out elsewhere. Every concrete evaluation below uses sizes
  that are powers of two, where the binary arithmetic of the source is exact.
\<close>

text \<open>\<^verbatim>\<open>units_to_double\<close>: Pango units are 1/1024 of a device unit (\<^verbatim>\<open>PANGO_SCALE\<close>).\<close>

definition units_to_double :: "int \<Rightarrow> rat" where
  "units_to_double i = of_int i / 1024"

text \<open>\<^verbatim>\<open>int(x)\<close> on a float: truncation towards zero.\<close>

definition py_int :: "rat \<Rightarrow> int" where
  "py_int x = (if 0 \<le> x then \<lfloor>x\<rfloor> else \<lceil>x\<rceil>)"

text \<open>\<^verbatim>\<open>round(x)\<close> on a float: to the nearest integer, a tie to the even one.\<close>

definition py_round :: "rat \<Rightarrow> int" where
  "py_round x =
     (let f = \<lfloor>x\<rfloor>; d = x - of_int f
      in if d < 1 / 2 then f else if 1 / 2 < d then f + 1
         else if even f then f else f + 1)"

subsection \<open>Data\<close>

type_synonym pystr = "nat list"   \<comment> \<open>a Python \<^verbatim>\<open>str\<close>: its code points\<close>
type_synonym bytes = "string"     \<comment> \<open>a Python \<^verbatim>\<open>bytes\<close>\<close>
type_synonym glyph_id = "32 word"

definition PANGO_GLYPH_EMPTY :: glyph_id where
  "PANGO_GLYPH_EMPTY = 0x0FFFFFFF"

definition PANGO_GLYPH_UNKNOWN_FLAG :: glyph_id where
  "PANGO_GLYPH_UNKNOWN_FLAG = 0x10000000"

text \<open>\<^verbatim>\<open>PangoGlyphInfo\<close> with its \<^verbatim>\<open>geometry\<close>, in Pango units.\<close>

record glyph_info =
  glyph :: glyph_id
  width :: int
  x_offset :: int
  y_offset :: int

text \<open>
  One \<^verbatim>\<open>PangoGlyphItem\<close>: the font of the run, the byte offset and length of its item in
  the UTF-8 text, its glyphs and their \<^verbatim>\<open>log_clusters\<close>.
\<close>

record run =
  pango_font :: nat
  item_offset :: nat
  item_length :: nat
  glyphs :: "glyph_info list"
  log_clusters :: "nat list"

text \<open>
  The font object returned by \<^verbatim>\<open>stream.add_font\<close>. \<^verbatim>\<open>svg_table\<close> and \<^verbatim>\<open>png_table\<close> are what
  \<^verbatim>\<open>get_hb_object_data\<close> reads from \<^verbatim>\<open>font.hb_face\<close> and \<^verbatim>\<open>font.hb_font\<close>.
\<close>

record font =
  hash :: string
  bitmap :: bool
  svg :: bool
  png :: bool
  upem :: int
  widths :: "glyph_id \<rightharpoonup> int"
  cmap :: "glyph_id \<rightharpoonup> pystr"
  svg_table :: "glyph_id \<Rightarrow> bytes option"
  png_table :: "glyph_id \<Rightarrow> bytes option"

text \<open>
  The operand of \<^verbatim>\<open>show_text\<close> is a Python string built from \<^verbatim>\<open><\<close>, \<^verbatim>\<open>>\<close>, hexadecimal
  glyph codes and formatted numbers. It is kept as the list of these pieces: \<open>Hex n g\<close> is
  \<^verbatim>\<open>f'{g:0nx}'\<close>, \<open>NumF x\<close> a formatted float, \<open>NumI k\<close> a formatted int. No number
  and no glyph code ends with \<^verbatim>\<open><\<close>, so \<^verbatim>\<open>string[-1] == '<'\<close> holds exactly when the last
  piece is \<open>Lt\<close>, and none is empty, so the string is empty exactly when the list is.
\<close>

datatype tok = Lt | Gt | Hex nat glyph_id | NumF rat | NumI int

datatype image =
  SVGImage bytes glyph_id
| RasterImage nat nat string bytes

text \<open>An entry of \<^verbatim>\<open>emojis\<close>: \<^verbatim>\<open>[image, font, a, d, e, f]\<close>; the font is given by its key.\<close>

record emoji =
  em_image :: image
  em_font :: nat
  em_a :: rat
  em_d :: rat
  em_e :: rat
  em_f :: rat

text \<open>The calls on the pydyf stream, in the order they are made.\<close>

datatype op =
  ShowText "tok list"
| SetTextRise rat
| SetFontSize string rat
| SetTextMatrix rat rat rat rat rat rat
| SetColorRGB rat rat rat
| SetAlpha rat
| BeginText
| EndText
| DrawLine rat rat rat rat rat string string rat
| PushState
| PopState
| Transform rat rat rat rat
| ImageDraw image rat rat

datatype error =
  AssertionError
| IndexError
| NameError
| RuntimeError
| ZeroDivisionError
| UnicodeError
| ImageError
| ParseError
| KeyError
| TypeError
| AttributeError
| ValueError

text \<open>
  What the draw reads from outside this file: the word breaker and the shaper of
  \<^verbatim>\<open>text.line_break\<close>, Python's codecs, Pango's glyph extents, the image decoders.
  A decoder that raises is the value \<open>None\<close>. \<open>float_round\<close> is the rounding of the
  result of one operation on floats to the float that represents it.
\<close>

record layout =
  layout_text :: pystr
  max_width :: "rat option"
  single_paragraph :: bool
  layout_width :: "int option"
  ellipsize_end :: bool
  underline_thickness :: rat
  underline_position :: rat
  strikethrough_thickness :: rat
  strikethrough_position :: rat
  ascent :: rat

record env =
  get_last_word_end :: "pystr \<Rightarrow> string \<Rightarrow> nat option"
  get_first_line :: "layout \<Rightarrow> run list \<times> nat option"
  encode :: "pystr \<Rightarrow> bytes option"
  decode :: "bytes \<Rightarrow> pystr option"
  font_key :: "nat \<Rightarrow> nat"
  logical_rect :: "nat \<Rightarrow> glyph_id \<Rightarrow> int \<times> int \<times> int \<times> int"
  image_open :: "bytes \<Rightarrow> (nat \<times> nat) option"
  svg_fromstring :: "bytes \<Rightarrow> bool"
  float_round :: "rat \<Rightarrow> rat"

text \<open>
  The stream and the locals of the glyph loop of \<^verbatim>\<open>draw_first_line\<close>. \<open>fonts\<close> is the
  registry behind \<^verbatim>\<open>stream.add_font\<close>, by font key: one shared object per key.
\<close>

record stream =
  ops :: "op list"
  fonts :: "nat \<Rightarrow> font"

record enc = stream +
  string :: "tok list"
  last_font :: "nat option"
  x_advance :: rat
  emojis :: "emoji list"
  previous_utf8_position :: nat

subsection \<open>The glyph loop\<close>

definition is_sentinel :: "glyph_id \<Rightarrow> bool" where
  "is_sentinel g \<longleftrightarrow> g = PANGO_GLYPH_EMPTY \<or> g AND PANGO_GLYPH_UNKNOWN_FLAG \<noteq> 0"

definition glyph_code :: "font \<Rightarrow> glyph_id \<Rightarrow> tok" where
  "glyph_code f g = (if bitmap f then Hex 2 g else Hex 4 g)"

text \<open>\<^verbatim>\<open>string[:-1]\<close> if the string ends with \<^verbatim>\<open><\<close>, else \<^verbatim>\<open>string + '>'\<close>.\<close>

definition close_group :: "tok list \<Rightarrow> error + tok list" where
  "close_group s =
     (if s = [] then Inl IndexError
      else if last s = Lt then Inr (butlast s) else Inr (s @ [Gt]))"

text \<open>\<^verbatim>\<open>utf8_text[a:b]\<close> for indices that are not negative.\<close>

definition slice :: "nat \<Rightarrow> nat \<Rightarrow> 'a list \<Rightarrow> 'a list" where
  "slice a b xs = drop a (take b xs)"

definition advance_permille :: "rat \<Rightarrow> glyph_info \<Rightarrow> rat" where
  "advance_permille font_size gi = units_to_double (width gi * 1000) / font_size"

definition offset_of :: "rat \<Rightarrow> glyph_info \<Rightarrow> rat" where
  "offset_of font_size gi = of_int (x_offset gi) / font_size"

definition rise_of :: "glyph_info \<Rightarrow> rat" where
  "rise_of gi = of_int (y_offset gi) / 1000"

text \<open>Lines 193-198: the width of a glyph is computed when the font has none for it.\<close>

definition cache_width :: "env \<Rightarrow> rat \<Rightarrow> nat \<Rightarrow> glyph_id \<Rightarrow> font \<Rightarrow> font" where
  "cache_width e font_size pf g f =
     (if g \<in> dom (widths f) then f
      else f\<lparr>widths := (widths f)(g \<mapsto>
             py_round (units_to_double ((fst (snd (snd (logical_rect e pf g)))) * 1000)
                       / font_size))\<rparr>)"

text \<open>
  Lines 201-202. \<^verbatim>\<open>int\<close> cuts the kerning from a sum of floats: where the exact sum is an
  integer, or close to one, the rounding of the four operations decides the result.
  \<open>float_sum\<close> is the sum as the floats give it.
\<close>

definition float_sum :: "env \<Rightarrow> rat \<Rightarrow> int \<Rightarrow> glyph_info \<Rightarrow> rat" where
  "float_sum e font_size w gi =
     float_round e
       (float_round e (of_int w - float_round e (advance_permille font_size gi))
        + float_round e (offset_of font_size gi))"

definition kerning_of :: "env \<Rightarrow> rat \<Rightarrow> int \<Rightarrow> glyph_info \<Rightarrow> int" where
  "kerning_of e font_size w gi = py_int (float_sum e font_size w gi)"

text \<open>Lines 207-210: the source text of a glyph is recorded when the font has none for it.\<close>

definition cache_cmap :: "env \<Rightarrow> bytes \<Rightarrow> nat \<Rightarrow> nat \<Rightarrow> glyph_id \<Rightarrow> font \<Rightarrow> error + font" where
  "cache_cmap e utf8_text prev pos g f =
     (if g \<in> dom (cmap f) then Inr f
      else case decode e (slice prev pos utf8_text) of
             None \<Rightarrow> Inl UnicodeError
           | Some s \<Rightarrow> Inr (f\<lparr>cmap := (cmap f)(g \<mapsto> s)\<rparr>))"

text \<open>Lines 213-243: the emoji of a glyph, if its font has one. \<open>w\<close> is \<^verbatim>\<open>font.widths[glyph]\<close>.\<close>

function decimal :: "nat \<Rightarrow> string" where
  "decimal n = (if n < 10 then [char_of (48 + n)] else decimal (n div 10) @ [char_of (48 + n mod 10)])"
  by pat_completeness auto
termination
  by (relation "measure id") auto

declare decimal.simps [simp del]

definition truthy_bytes :: "bytes option \<Rightarrow> bool" where
  "truthy_bytes d \<longleftrightarrow> (case d of None \<Rightarrow> False | Some b \<Rightarrow> b \<noteq> [])"

definition emoji_of ::
  "env \<Rightarrow> rat \<Rightarrow> nat \<Rightarrow> nat \<Rightarrow> font \<Rightarrow> glyph_id \<Rightarrow> int \<Rightarrow> rat \<Rightarrow> error + emoji list" where
  "emoji_of e font_size pf key f g w xadv =
     (if svg f then
        (if truthy_bytes (svg_table f g) then
           (if \<not> svg_fromstring e (the (svg_table f g)) then Inl ParseError
            else if upem f = 0 then Inl ZeroDivisionError
            else let a = of_int w / 1000 / of_int (upem f) * font_size
                 in Inr [\<lparr>em_image = SVGImage (the (svg_table f g)) g, em_font = key,
                          em_a = a, em_d = a, em_e = xadv, em_f = 0\<rparr>])
         else Inr [])
      else if png f then
        (if truthy_bytes (png_table f g) then
           (case image_open e (the (png_table f g)) of
              None \<Rightarrow> Inl ImageError
            | Some (iw, ih) \<Rightarrow>
                if ih = 0 then Inl ZeroDivisionError
                else let d = of_int w / 1000;
                         a = of_nat iw / of_nat ih * d;
                         (rx, ry, rw, rh) = logical_rect e pf g;
                         f0 = units_to_double (- ry - rh)
                     in Inr [\<lparr>em_image =
                                RasterImage iw ih (hash f @ decimal (unat g)) (the (png_table f g)),
                              em_font = key, em_a = a, em_d = d, em_e = xadv,
                              em_f = f0 / font_size - font_size\<rparr>])
         else Inr [])
      else Inr [])"

text \<open>
  Lines 171-190: the glyph code goes to the string, or, with a rise, into a show of its
  own. \<open>f\<close> is the font of the run.
\<close>

definition show_glyph :: "rat \<Rightarrow> font \<Rightarrow> glyph_info \<Rightarrow> enc \<Rightarrow> error + enc" where
  "show_glyph font_size f gi st =
     (let g = glyph gi; offset = offset_of font_size gi; rise = rise_of gi in
      if rise \<noteq> 0 then
        (case close_group (string st) of
           Inl err \<Rightarrow> Inl err
         | Inr s \<Rightarrow>
             Inr (st\<lparr>ops := ops st @
                       [ShowText s, SetTextRise (- rise),
                        ShowText ((if offset \<noteq> 0 then [NumF (- offset)] else [])
                                  @ [Lt, glyph_code f g, Gt]),
                        SetTextRise 0],
                     string := [Lt]\<rparr>))
      else
        Inr (st\<lparr>string := string st
                     @ (if offset \<noteq> 0 then [Gt, NumF (- offset), Lt] else [])
                     @ [glyph_code f g]\<rparr>))"

text \<open>
  One turn of the loop over the glyphs of a run (lines 162-245). \<open>key\<close> is the key of the
  run's font, \<open>upos\<close> is \<^verbatim>\<open>utf8_positions\<close> and \<open>i\<close> the index of the glyph. A division
  by a font size of 0 raises; \<^verbatim>\<open>draw_first_line\<close> never comes here with one.
\<close>

definition glyph_step ::
  "env \<Rightarrow> rat \<Rightarrow> bytes \<Rightarrow> nat \<Rightarrow> nat \<Rightarrow> nat list \<Rightarrow> nat \<Rightarrow> glyph_info \<Rightarrow> enc \<Rightarrow> error + enc" where
  "glyph_step e font_size utf8_text pf key upos i gi st =
     (let g = glyph gi in
      if is_sentinel g then
        (if font_size = 0 then Inl ZeroDivisionError
         else Inr (st\<lparr>string := string st
                       @ [Gt, NumF (- (of_int (width gi) / font_size)), Lt]\<rparr>))
      else if length upos \<le> i then Inl IndexError
      else if font_size = 0 then Inl ZeroDivisionError
      else
        let utf8_position = upos ! i;
            offset = offset_of font_size gi;
            f = fonts st key
        in case show_glyph font_size f gi st of
             Inl err \<Rightarrow> Inl err
           | Inr st1 \<Rightarrow>
               let f1 = cache_width e font_size pf g f;
                   w = the (widths f1 g);
                   kerning = kerning_of e font_size w gi;
                   st2 = st1\<lparr>string := string st1
                                  @ (if kerning \<noteq> 0 then [Gt, NumI kerning, Lt] else [])\<rparr>
               in case cache_cmap e utf8_text (previous_utf8_position st) utf8_position g f1 of
                    Inl err \<Rightarrow> Inl err
                  | Inr f2 \<Rightarrow>
                      (case emoji_of e font_size pf key f2 g w (x_advance st) of
                         Inl err \<Rightarrow> Inl err
                       | Inr em \<Rightarrow>
                           Inr (st2\<lparr>fonts := fun_upd (fonts st) key f2,
                                     previous_utf8_position := utf8_position,
                                     emojis := emojis st @ em,
                                     x_advance := x_advance st
                                        + (of_int w + offset - of_int kerning) / 1000\<rparr>)))"

subsection \<open>The loop over the runs\<close>

text \<open>
  Lines 150-151. The glyph string of a run has \<^verbatim>\<open>num_glyphs\<close> glyphs and as many
  \<^verbatim>\<open>log_clusters\<close>.
\<close>

definition utf8_positions :: "run \<Rightarrow> nat list" where
  "utf8_positions r =
     map (\<lambda>c. item_offset r + c) (drop 1 (take (length (glyphs r)) (log_clusters r)))
     @ [item_offset r + item_length r]"

fun glyph_loop ::
  "env \<Rightarrow> rat \<Rightarrow> bytes \<Rightarrow> nat \<Rightarrow> nat \<Rightarrow> nat list \<Rightarrow> nat \<Rightarrow> glyph_info list \<Rightarrow> enc \<Rightarrow> error + enc" where
  "glyph_loop e font_size utf8_text pf key upos i [] st = Inr st"
| "glyph_loop e font_size utf8_text pf key upos i (gi # gis) st =
     (case glyph_step e font_size utf8_text pf key upos i gi st of
        Inl err \<Rightarrow> Inl err
      | Inr st' \<Rightarrow> glyph_loop e font_size utf8_text pf key upos (Suc i) gis st')"

text \<open>Lines 154-160: a new font flushes the string and sets the font and its size.\<close>

definition set_font :: "rat \<Rightarrow> nat \<Rightarrow> enc \<Rightarrow> enc" where
  "set_font font_size key st =
     (if last_font st \<noteq> Some key then
        st\<lparr>ops := ops st @ (if string st \<noteq> [] then [ShowText (string st)] else [])
                    @ [SetFontSize (hash (fonts st key))
                         (if bitmap (fonts st key) then 1 else font_size)],
           string := [Lt], last_font := Some key\<rparr>
      else st\<lparr>string := string st @ [Lt]\<rparr>)"

definition run_step :: "env \<Rightarrow> rat \<Rightarrow> bytes \<Rightarrow> run \<Rightarrow> enc \<Rightarrow> error + enc" where
  "run_step e font_size utf8_text r st =
     (let pf = pango_font r; key = font_key e pf
      in case glyph_loop e font_size utf8_text pf key (utf8_positions r) 0 (glyphs r)
                (set_font font_size key st) of
           Inl err \<Rightarrow> Inl err
         | Inr st' \<Rightarrow>
             (case close_group (string st') of
                Inl err \<Rightarrow> Inl err
              | Inr s \<Rightarrow> Inr (st'\<lparr>string := s\<rparr>)))"

fun run_loop :: "env \<Rightarrow> rat \<Rightarrow> bytes \<Rightarrow> run list \<Rightarrow> enc \<Rightarrow> error + enc" where
  "run_loop e font_size utf8_text [] st = Inr st"
| "run_loop e font_size utf8_text (r # rs) st =
     (case run_step e font_size utf8_text r st of
        Inl err \<Rightarrow> Inl err
      | Inr st' \<Rightarrow> run_loop e font_size utf8_text rs st')"

text \<open>
  Lines 127-256. \<^verbatim>\<open>first_line.runs[0]\<close> dereferences the head of the list of runs, which
  is a null pointer when the line has no run.
\<close>

definition encode_line ::
  "env \<Rightarrow> rat \<Rightarrow> pystr \<Rightarrow> rat \<times> rat \<times> rat \<times> rat \<times> rat \<times> rat \<Rightarrow> run list \<Rightarrow> stream
     \<Rightarrow> error + emoji list \<times> stream" where
  "encode_line e font_size txt matrix line s =
     (case encode e txt of
        None \<Rightarrow> Inl UnicodeError
      | Some utf8_text \<Rightarrow>
          (case matrix of (ma, mb, mc, md, me, mf) \<Rightarrow>
             if line = [] then Inl RuntimeError
             else case run_loop e font_size utf8_text line
                         \<lparr>ops = ops s @ [SetTextMatrix ma mb mc md me mf], fonts = fonts s,
                          string = [], last_font = None, x_advance = 0, emojis = [],
                          previous_utf8_position = 0\<rparr> of
                    Inl err \<Rightarrow> Inl err
                  | Inr st \<Rightarrow>
                      Inr (emojis st,
                           \<lparr>ops = ops st @ [ShowText (string st)], fonts = fonts st\<rparr>)))"

subsection \<open>Truncation to a block ellipsis\<close>

datatype block_ellipsis = BE_none | BE_auto | BE_string pystr

record style =
  font_size :: rat
  visibility :: string
  text_decoration_line :: "string list"
  text_decoration_color :: string
  text_decoration_style :: string
  color :: "rat \<times> rat \<times> rat \<times> rat"
  hyphenate_character :: pystr
  lang :: string

record textbox =
  box_text :: pystr
  style :: style
  position_x :: rat
  position_y :: rat
  baseline :: rat
  box_width :: rat
  pango_layout :: layout

text \<open>The code points that \<^verbatim>\<open>str.strip()\<close> removes.\<close>

definition is_whitespace :: "nat \<Rightarrow> bool" where
  "is_whitespace c \<longleftrightarrow>
     (9 \<le> c \<and> c \<le> 13) \<or> (28 \<le> c \<and> c \<le> 32) \<or> c = 133 \<or> c = 160 \<or> c = 5760
     \<or> (8192 \<le> c \<and> c \<le> 8202) \<or> c = 8232 \<or> c = 8233 \<or> c = 8239 \<or> c = 8287
     \<or> c = 12288"

definition strip :: "pystr \<Rightarrow> pystr" where
  "strip t = rev (dropWhile is_whitespace (rev (dropWhile is_whitespace t)))"

text \<open>\<^verbatim>\<open>t[:-n]\<close> for \<^verbatim>\<open>n = len(...)\<close>: with \<^verbatim>\<open>n = 0\<close> it is \<^verbatim>\<open>t[:0]\<close>, the empty string.\<close>

definition slice_neg :: "nat \<Rightarrow> 'a list \<Rightarrow> 'a list" where
  "slice_neg n t = (if n = 0 then [] else take (length t - n) t)"

definition endswith :: "'a list \<Rightarrow> 'a list \<Rightarrow> bool" where
  "endswith t h \<longleftrightarrow> length h \<le> length t \<and> drop (length t - length h) t = h"

text \<open>\<^verbatim>\<open>units_from_double\<close>: \<^verbatim>\<open>floor(d * PANGO_SCALE + 0.5)\<close>.\<close>

definition units_from_double :: "rat \<Rightarrow> int" where
  "units_from_double d = \<lfloor>d * 1024 + 1 / 2\<rfloor>"

text \<open>\<^verbatim>\<open>while index\<close>: neither \<^verbatim>\<open>None\<close> nor 0.\<close>

definition truthy :: "nat option \<Rightarrow> bool" where
  "truthy index \<longleftrightarrow> index \<noteq> None \<and> index \<noteq> Some 0"

text \<open>Lines 103-110: the text without its last word when it ends with the hyphen.\<close>

definition remove_hyphenated :: "env \<Rightarrow> style \<Rightarrow> pystr \<Rightarrow> pystr" where
  "remove_hyphenated e sty new_text =
     (if endswith new_text (hyphenate_character sty) then
        (case get_last_word_end e
                (slice_neg (length (hyphenate_character sty)) new_text) (lang sty) of
           None \<Rightarrow> new_text
         | Some last_word_end \<Rightarrow>
             if last_word_end = 0 then new_text else take last_word_end new_text)
      else new_text)"

text \<open>
  Lines 118-124, the body of the loop: \<open>None\<close> is the \<^verbatim>\<open>break\<close>, otherwise the layout
  with its new text.
\<close>

definition trunc_step :: "env \<Rightarrow> pystr \<Rightarrow> string \<Rightarrow> layout \<Rightarrow> layout option" where
  "trunc_step e ellipsis lng lay =
     (case get_last_word_end e (slice_neg (length ellipsis) (layout_text lay)) lng of
        None \<Rightarrow> None
      | Some last_word_end \<Rightarrow>
          Some (lay\<lparr>layout_text := take last_word_end (layout_text lay) @ ellipsis\<rparr>))"

text \<open>
  Lines 116-125. The loop may run for ever with a word breaker that never shortens the
  text, so it is given the number of texts it may set: \<open>None\<close> when that is not enough.
\<close>

fun trunc_loop ::
  "nat \<Rightarrow> env \<Rightarrow> pystr \<Rightarrow> string \<Rightarrow> layout \<times> run list \<times> nat option
     \<Rightarrow> (layout \<times> run list \<times> nat option) option" where
  "trunc_loop n e ellipsis lng (lay, first_line, index) =
     (if \<not> truthy index then Some (lay, first_line, index)
      else case trunc_step e ellipsis lng lay of
             None \<Rightarrow> Some (lay, first_line, index)
           | Some lay' \<Rightarrow>
               (case n of
                  0 \<Rightarrow> None
                | Suc m \<Rightarrow> trunc_loop m e ellipsis lng (lay', get_first_line e lay')))"

subsection \<open>\<^verbatim>\<open>draw_first_line\<close>\<close>

text \<open>
  Lines 88-112. With \<^verbatim>\<open>text_overflow == 'ellipsis'\<close> the name \<^verbatim>\<open>ellipsis\<close> is never bound:
  the second component is \<open>None\<close> then.
\<close>

definition prepare_layout ::
  "env \<Rightarrow> style \<Rightarrow> string \<Rightarrow> block_ellipsis \<Rightarrow> layout \<Rightarrow> error + layout \<times> pystr option" where
  "prepare_layout e sty text_overflow be lay0 =
     (let lay = lay0\<lparr>single_paragraph := True\<rparr> in
      if text_overflow = ''ellipsis'' \<or> be \<noteq> BE_none then
        (case max_width lay of
           None \<Rightarrow> Inl AssertionError
         | Some mw \<Rightarrow>
             let lay1 = lay\<lparr>layout_width := Some (units_from_double mw)\<rparr> in
             if text_overflow = ''ellipsis'' then Inr (lay1\<lparr>ellipsize_end := True\<rparr>, None)
             else
               let ellipsis = (case be of BE_string s \<Rightarrow> s | _ \<Rightarrow> [8230])
               in Inr (lay1\<lparr>layout_text :=
                              remove_hyphenated e sty (layout_text lay1) @ ellipsis\<rparr>,
                       Some ellipsis))
      else Inr (lay, None))"

text \<open>
  \<^verbatim>\<open>draw_first_line\<close>: the emojis, the layout and the stream it leaves. \<open>n\<close> bounds the
  truncation loop.
\<close>

definition draw_first_line ::
  "nat \<Rightarrow> env \<Rightarrow> textbox \<Rightarrow> string \<Rightarrow> block_ellipsis
     \<Rightarrow> rat \<times> rat \<times> rat \<times> rat \<times> rat \<times> rat \<Rightarrow> stream
     \<Rightarrow> (error + emoji list \<times> layout \<times> stream) option" where
  "draw_first_line n e tb text_overflow be matrix s =
     (if strip (box_text tb) = [] then Some (Inr ([], pango_layout tb, s))
      else if font_size (style tb) < 1 / 1000000 then Some (Inr ([], pango_layout tb, s))
      else
        case prepare_layout e (style tb) text_overflow be (pango_layout tb) of
          Inl err \<Rightarrow> Some (Inl err)
        | Inr (lay, ell) \<Rightarrow>
            (case (if be \<noteq> BE_none then
                     (case ell of
                        None \<Rightarrow>
                          if truthy (snd (get_first_line e lay)) then Some (Inl NameError)
                          else Some (Inr (lay, get_first_line e lay))
                      | Some ellipsis \<Rightarrow>
                          map_option Inr
                            (trunc_loop n e ellipsis (lang (style tb))
                               (lay, get_first_line e lay)))
                   else Some (Inr (lay, get_first_line e lay))) of
               None \<Rightarrow> None
             | Some (Inl err) \<Rightarrow> Some (Inl err)
             | Some (Inr (lay', first_line, index)) \<Rightarrow>
                 (case encode_line e (font_size (style tb)) (layout_text lay') matrix
                         first_line s of
                    Inl err \<Rightarrow> Some (Inl err)
                  | Inr (em, s') \<Rightarrow> Some (Inr (em, lay', s')))))"

subsection \<open>\<^verbatim>\<open>draw_text\<close>\<close>




section \<open>PDF/A metadata (weasyprint/pdf/pdfa.py)\<close>

text \<open>
  The values pydyf stores in dictionaries and arrays: a Python \<^verbatim>\<open>str\<close> such as
  \<^verbatim>\<open>'/Annot'\<close>, an \<^verbatim>\<open>int\<close>, the reference \<^verbatim>\<open>b'n 0 R'\<close> of the object with number n,
  a \<^verbatim>\<open>pydyf.String\<close>, a \<^verbatim>\<open>pydyf.Array\<close>, a \<^verbatim>\<open>pydyf.Dictionary\<close>. A dictionary keeps its
  keys in the order they were set.
\<close>

datatype pval =
  PStr string
| PInt int
| PRef nat
| PString string
| PArr "pval list"
| PDic "(string \<times> pval) list"

type_synonym dict = "(string \<times> pval) list"

text \<open>The members of \<^verbatim>\<open>pdf.objects\<close>; only \<open>ODict\<close> is an instance of \<^verbatim>\<open>dict\<close>.\<close>

datatype pobj =
  ODict dict
| OArray "pval list"
| OStream dict "bytes list" bool
| OOther

text \<open>
  \<^verbatim>\<open>pydyf.PDF\<close>: \<^verbatim>\<open>add_object\<close> gives an object the number of its place in
  \<^verbatim>\<open>objects\<close>, and \<^verbatim>\<open>pdf.catalog\<close> is one of the objects, the one with number
  \<open>catalog_number\<close>.
\<close>

record pdf =
  objects :: "pobj list"
  catalog_number :: nat

record attachment =
  md5 :: "string option"
  relationship :: string

definition catalog :: "pdf \<Rightarrow> dict option" where
  "catalog p =
     (if catalog_number p < length (objects p) then
        (case objects p ! catalog_number p of ODict d \<Rightarrow> Some d | _ \<Rightarrow> None)
      else None)"

definition catalog_set :: "string \<Rightarrow> pval \<Rightarrow> pdf \<Rightarrow> pdf" where
  "catalog_set k v p =
     (case catalog p of
        None \<Rightarrow> p
      | Some d \<Rightarrow> p\<lparr>objects := (objects p)[catalog_number p := ODict (AList.update k v d)]\<rparr>)"

definition add_object :: "pobj \<Rightarrow> pdf \<Rightarrow> pdf" where
  "add_object ob p = p\<lparr>objects := objects p @ [ob]\<rparr>"

text \<open>\<^verbatim>\<open>names[1::2]\<close>.\<close>

fun odds :: "'a list \<Rightarrow> 'a list" where
  "odds (x # y # zs) = y # odds zs"
| "odds _ = []"

text \<open>
  Line 41: \<^verbatim>\<open>int(x.split()[0])\<close> for a \<^verbatim>\<open>str\<close>. \<^verbatim>\<open>split\<close> cuts at whitespace and gives no
  piece for an empty or blank string; \<^verbatim>\<open>int\<close> reads a sign and decimal digits, with single
  underscores between digits.
\<close>

definition first_piece :: "string \<Rightarrow> string" where
  "first_piece s =
     takeWhile (\<lambda>c. \<not> is_whitespace (of_char c)) (dropWhile (\<lambda>c. is_whitespace (of_char c)) s)"

definition is_digit :: "char \<Rightarrow> bool" where
  "is_digit c \<longleftrightarrow> 48 \<le> (of_char c :: nat) \<and> (of_char c :: nat) \<le> 57"

fun no_double_underscore :: "string \<Rightarrow> bool" where
  "no_double_underscore (a # b # cs) =
     (\<not> (a = CHR ''_'' \<and> b = CHR ''_'') \<and> no_double_underscore (b # cs))"
| "no_double_underscore _ = True"

definition digits_value :: "string \<Rightarrow> nat option" where
  "digits_value s =
     (if s \<noteq> [] \<and> list_all (\<lambda>c. is_digit c \<or> c = CHR ''_'') s \<and> is_digit (hd s)
         \<and> is_digit (last s) \<and> no_double_underscore s
      then Some (foldl (\<lambda>n c. 10 * n + (of_char c - 48)) 0 (filter is_digit s))
      else None)"

definition int_of_str :: "string \<Rightarrow> int option" where
  "int_of_str s =
     (case s of
        [] \<Rightarrow> None
      | c # cs \<Rightarrow>
          if c = CHR ''-'' then map_option (\<lambda>n. - int n) (digits_value cs)
          else if c = CHR ''+'' then map_option int (digits_value cs)
          else map_option int (digits_value s))"

text \<open>\<^verbatim>\<open>pdf.objects[reference]\<close>: an index below 0 counts from the end.\<close>

definition object_at :: "pdf \<Rightarrow> int \<Rightarrow> error + pobj" where
  "object_at p r =
     (let n = int (length (objects p)); j = (if r < 0 then n + r else r)
      in if 0 \<le> j \<and> j < n then Inr (objects p ! nat j) else Inl IndexError)"

text \<open>
  Lines 39-44: the attachments named in the catalog. \<^verbatim>\<open>in\<close> looks for a key in a
  dictionary, for a substring in a \<^verbatim>\<open>str\<close>, for a member in a list, and raises on the
  other values. The reference under \<^verbatim>\<open>EmbeddedFiles\<close> is read from the bytes of a
  reference or from a \<^verbatim>\<open>str\<close>; the other values have no \<^verbatim>\<open>split\<close>.
\<close>

definition is_substring :: "string \<Rightarrow> string \<Rightarrow> bool" where
  "is_substring x s \<longleftrightarrow> (\<exists>i\<in>set [0..<Suc (length s)]. take (length x) (drop i s) = x)"

definition names_slice :: "pdf \<Rightarrow> int \<Rightarrow> error + pval list" where
  "names_slice p reference =
     (case object_at p reference of
        Inl err \<Rightarrow> Inl err
      | Inr (OArray names) \<Rightarrow> Inr (odds names)
      | Inr _ \<Rightarrow> Inl TypeError)"

definition named_attachments :: "pdf \<Rightarrow> dict \<Rightarrow> error + pval list" where
  "named_attachments p cat =
     (case map_of cat ''Names'' of
        None \<Rightarrow> Inr []
      | Some (PDic d) \<Rightarrow>
          (case map_of d ''EmbeddedFiles'' of
             None \<Rightarrow> Inr []
           | Some (PRef reference) \<Rightarrow> names_slice p (int reference)
           | Some (PStr s) \<Rightarrow>
               if first_piece s = [] then Inl IndexError
               else (case int_of_str (first_piece s) of
                       None \<Rightarrow> Inl ValueError
                     | Some reference \<Rightarrow> names_slice p reference)
           | Some _ \<Rightarrow> Inl AttributeError)
      | Some (PStr s) \<Rightarrow> if is_substring ''EmbeddedFiles'' s then Inl TypeError else Inr []
      | Some (PArr xs) \<Rightarrow> if PStr ''EmbeddedFiles'' \<in> set xs then Inl TypeError else Inr []
      | Some _ \<Rightarrow> Inl TypeError)"

text \<open>
  Lines 45-48: the dictionary comprehension; a later attachment replaces an earlier one
  with the same \<^verbatim>\<open>md5\<close>, and an attachment without \<^verbatim>\<open>md5\<close> is left out.
\<close>

fun relationships :: "attachment list \<Rightarrow> (string \<rightharpoonup> string) \<Rightarrow> (string \<rightharpoonup> string)" where
  "relationships [] m = m"
| "relationships (a # as) m =
     relationships as
       (case md5 a of
          None \<Rightarrow> m
        | Some h \<Rightarrow> if h = [] then m else m(h \<mapsto> relationship a))"

text \<open>
  Line 53: \<^verbatim>\<open>relationships.get(checksum, 'Unspecified')\<close>. Only a \<^verbatim>\<open>str\<close> can be equal to a
  key; arrays and dictionaries are not hashable.
\<close>

definition get_relationship :: "(string \<rightharpoonup> string) \<Rightarrow> pval \<Rightarrow> error + string" where
  "get_relationship rels checksum =
     (case checksum of
        PStr c \<Rightarrow> Inr (case rels c of None \<Rightarrow> ''Unspecified'' | Some r \<Rightarrow> r)
      | PArr _ \<Rightarrow> Inl TypeError
      | PDic _ \<Rightarrow> Inl TypeError
      | _ \<Rightarrow> Inr ''Unspecified'')"

text \<open>
  Lines 49-55: the loop over the objects; \<open>i\<close> is the number of the first object of the
  list. It gives the objects and the references appended to \<^verbatim>\<open>attachments\<close>.
\<close>

fun tag_filespecs ::
  "(string \<rightharpoonup> string) \<Rightarrow> nat \<Rightarrow> pobj list \<Rightarrow> error + pobj list \<times> pval list" where
  "tag_filespecs rels i [] = Inr ([], [])"
| "tag_filespecs rels i (ODict d # obs) =
     (if map_of d ''Type'' = Some (PStr ''/Filespec'') then
        (case map_of d ''CheckSum'' of
           None \<Rightarrow> Inl KeyError
         | Some checksum \<Rightarrow>
             (case get_relationship rels checksum of
                Inl err \<Rightarrow> Inl err
              | Inr r \<Rightarrow>
                  (case tag_filespecs rels (Suc i) obs of
                     Inl err \<Rightarrow> Inl err
                   | Inr (obs', refs) \<Rightarrow>
                       Inr (ODict (AList.update ''AFRelationship'' (PStr (CHR ''/'' # r)) d) # obs',
                            PRef i # refs))))
      else (case tag_filespecs rels (Suc i) obs of
              Inl err \<Rightarrow> Inl err
            | Inr (obs', refs) \<Rightarrow> Inr (ODict d # obs', refs)))"
| "tag_filespecs rels i (ob # obs) =
     (case tag_filespecs rels (Suc i) obs of
        Inl err \<Rightarrow> Inl err
      | Inr (obs', refs) \<Rightarrow> Inr (ob # obs', refs))"

text \<open>Lines 38-59.\<close>

definition add_af :: "attachment list \<Rightarrow> pdf \<Rightarrow> error + pdf" where
  "add_af atts p =
     (case catalog p of
        None \<Rightarrow> Inl TypeError
      | Some cat \<Rightarrow>
          (case named_attachments p cat of
             Inl err \<Rightarrow> Inl err
           | Inr named \<Rightarrow>
               (case tag_filespecs (relationships atts Map.empty) 0 (objects p) of
                  Inl err \<Rightarrow> Inl err
                | Inr (obs', refs) \<Rightarrow>
                    let p1 = p\<lparr>objects := obs'\<rparr>; attachments = named @ refs in
                    if attachments = [] then Inr p1
                    else (case catalog p1 of
                            None \<Rightarrow> Inl TypeError
                          | Some cat1 \<Rightarrow>
                              (case map_of cat1 ''AF'' of
                                 None \<Rightarrow> Inr (catalog_set ''AF'' (PArr attachments) p1)
                               | Some (PArr xs) \<Rightarrow>
                                   Inr (catalog_set ''AF'' (PArr (xs @ attachments)) p1)
                               | Some _ \<Rightarrow> Inl AttributeError)))))"

text \<open>Lines 62-64.\<close>

definition print_annotation :: "pobj \<Rightarrow> pobj" where
  "print_annotation ob =
     (case ob of
        ODict d \<Rightarrow>
          if map_of d ''Type'' = Some (PStr ''/Annot'')
          then ODict (AList.update ''F'' (PInt (2 ^ (3 - 1))) d) else ob
      | _ \<Rightarrow> ob)"

text \<open>
  Modelled from the spec: \<^verbatim>\<open>add_metadata\<close> of \<^verbatim>\<open>weasyprint/pdf/metadata.py\<close>, which is not
  among the sources. The spec says that the finalizer "writes a metadata stream": a new
  stream object with the generated XML, referenced from the catalog.
\<close>

definition add_metadata :: "bytes \<Rightarrow> bool \<Rightarrow> pdf \<Rightarrow> pdf" where
  "add_metadata xml compress p =
     catalog_set ''Metadata'' (PRef (length (objects p)))
       (add_object
          (OStream [(''Type'', PStr ''/Metadata''), (''Subtype'', PStr ''/XML'')] [xml] compress)
          p)"

text \<open>
  \<^verbatim>\<open>pdfa\<close>. \<open>icc\<close> is the content of \<^verbatim>\<open>sRGB2014.icc\<close>, \<open>xml\<close> the metadata generated from
  \<^verbatim>\<open>metadata\<close>, \<open>atts\<close> is \<^verbatim>\<open>document.metadata.attachments\<close>.
\<close>

definition pdfa :: "bytes \<Rightarrow> bytes \<Rightarrow> attachment list \<Rightarrow> bool \<Rightarrow> int \<Rightarrow> pdf \<Rightarrow> error + pdf" where
  "pdfa icc xml atts compress version p =
     (case catalog p of
        None \<Rightarrow> Inl TypeError
      | Some _ \<Rightarrow>
          let p1 = add_object
                     (OStream [(''N'', PInt 3), (''Alternate'', PStr ''/DeviceRGB'')] [icc] compress)
                     p;
              p2 = catalog_set ''OutputIntents''
                     (PArr [PDic [(''Type'', PStr ''/OutputIntent''),
                                  (''S'', PStr ''/GTS_PDFA1''),
                                  (''OutputConditionIdentifier'', PString ''sRGB IEC61966-2.1''),
                                  (''DestOutputProfile'', PRef (length (objects p)))]])
                     p1
          in case (if 2 \<le> version then add_af atts p2 else Inr p2) of
               Inl err \<Rightarrow> Inl err
             | Inr p3 \<Rightarrow>
                 Inr (add_metadata xml compress
                        (p3\<lparr>objects := map print_annotation (objects p3)\<rparr>)))"

section \<open>Notions used in the statements\<close>

text \<open>
  \<open>font_le f f'\<close>: \<open>f'\<close> is \<open>f\<close> with more entries in its two caches, the entries of \<open>f\<close>
  unchanged.
\<close>

definition font_le :: "font \<Rightarrow> font \<Rightarrow> bool" where
  "font_le f f' \<longleftrightarrow>
     widths f \<subseteq>\<^sub>m widths f' \<and> cmap f \<subseteq>\<^sub>m cmap f' \<and>
     f' = f\<lparr>widths := widths f', cmap := cmap f'\<rparr>"

definition fonts_le :: "(nat \<Rightarrow> font) \<Rightarrow> (nat \<Rightarrow> font) \<Rightarrow> bool" where
  "fonts_le F F' \<longleftrightarrow> (\<forall>k. font_le (F k) (F' k))"









text \<open>
  A glyph that is drawn and whose image the decoder refuses: the SVG of a font with SVG
  images that does not parse, or the raster image of a font with raster images only
  that does not open.
\<close>

definition undecodable :: "env \<Rightarrow> font \<Rightarrow> glyph_info \<Rightarrow> bool" where
  "undecodable e f gi \<longleftrightarrow>
     \<not> is_sentinel (glyph gi) \<and>
     (if svg f then
        (case svg_table f (glyph gi) of
           None \<Rightarrow> False
         | Some d \<Rightarrow> d \<noteq> [] \<and> \<not> svg_fromstring e d)
      else png f \<and>
        (case png_table f (glyph gi) of
           None \<Rightarrow> False
         | Some d \<Rightarrow> d \<noteq> [] \<and> image_open e d = None))"



text \<open>An object that is a dictionary with the value \<open>x\<close> (or none) under the key \<open>a\<close>.\<close>

definition dict_has :: "string \<Rightarrow> pval option \<Rightarrow> pobj \<Rightarrow> bool" where
  "dict_has a x ob \<longleftrightarrow> (\<exists>d. ob = ODict d \<and> map_of d a = x)"


subsection \<open>A small world to run the definitions in\<close>

text \<open>
  A word ends before a space that follows a character other than a space; the shaper
  gives every character one glyph half an em wide, at a font size of 16, and reports the
  text as overflowing when it is wider than the layout; the codecs are those of ASCII.
\<close>

definition demo_last_word_end :: "pystr \<Rightarrow> string \<Rightarrow> nat option" where
  "demo_last_word_end t lng =
     (case filter (\<lambda>k. t ! k = 32 \<and> t ! (k - 1) \<noteq> 32) (rev [1..<length t]) of
        [] \<Rightarrow> None
      | k # _ \<Rightarrow> Some k)"

definition demo_glyph :: "nat \<Rightarrow> glyph_info" where
  "demo_glyph c = \<lparr>glyph = of_nat c, width = 8192, x_offset = 0, y_offset = 0\<rparr>"

definition demo_shape :: "layout \<Rightarrow> run list \<times> nat option" where
  "demo_shape lay =
     (let t = layout_text lay; n = length t in
      ([\<lparr>pango_font = 0, item_offset = 0, item_length = n,
         glyphs = map demo_glyph t, log_clusters = [0..<n]\<rparr>],
       (case layout_width lay of
          None \<Rightarrow> None
        | Some w \<Rightarrow> if w < 8192 * int n then Some (nat (w div 8192)) else None)))"

definition demo_encode :: "pystr \<Rightarrow> bytes option" where
  "demo_encode t = (if list_all (\<lambda>c. c < 128) t then Some (map char_of t) else None)"

definition demo_decode :: "bytes \<Rightarrow> pystr option" where
  "demo_decode b =
     (if list_all (\<lambda>c. of_char c < (128::nat)) b then Some (map of_char b) else None)"

definition demo_env :: env where
  "demo_env =
     \<lparr>get_last_word_end = demo_last_word_end, get_first_line = demo_shape,
      encode = demo_encode, decode = demo_decode, font_key = (\<lambda>pf. pf),
      logical_rect = (\<lambda>pf g. (0, - 12288, 8192, 16384)),
      image_open = (\<lambda>b. if b = ''bad'' then None else Some (2, 1)),
      svg_fromstring = (\<lambda>b. b \<noteq> ''<svg''),
      float_round = (\<lambda>x. x)\<rparr>"

definition demo_font :: font where
  "demo_font =
     \<lparr>hash = ''f0'', bitmap = False, svg = False, png = False, upem = 1000,
      widths = Map.empty, cmap = Map.empty,
      svg_table = (\<lambda>g. None), png_table = (\<lambda>g. None)\<rparr>"

text \<open>A font of raster images: glyph 65 has an image, the image of glyph 66 is broken.\<close>

definition demo_png_font :: font where
  "demo_png_font =
     \<lparr>hash = ''f1'', bitmap = True, svg = False, png = True, upem = 1000,
      widths = [65 \<mapsto> 1000], cmap = Map.empty,
      svg_table = (\<lambda>g. None),
      png_table = (\<lambda>g. if g = 65 then Some ''img'' else if g = 66 then Some ''bad'' else None)\<rparr>"

definition demo_stream :: stream where
  "demo_stream = \<lparr>ops = [], fonts = (\<lambda>k. if k = 1 then demo_png_font else demo_font)\<rparr>"

definition demo_enc :: enc where
  "demo_enc =
     \<lparr>ops = [], fonts = (\<lambda>k. if k = 1 then demo_png_font else demo_font),
      string = [Lt], last_font = Some 0, x_advance = 0, emojis = [],
      previous_utf8_position = 0\<rparr>"

text \<open>
  A font with both kinds of images: glyph 65 has an SVG and a raster image, the SVG of
  glyph 66 is cut short.
\<close>

definition demo_svg_png_font :: font where
  "demo_svg_png_font =
     demo_png_font
       \<lparr>svg := True,
        svg_table := (\<lambda>g. if g = 65 then Some ''<svg/>'' else if g = 66 then Some ''<svg''
                          else None)\<rparr>"

text \<open>The same world with every run in the font of raster images.\<close>

definition demo_png_env :: env where
  "demo_png_env = demo_env\<lparr>font_key := (\<lambda>pf. 1)\<rparr>"



definition demo_layout :: "pystr \<Rightarrow> layout" where
  "demo_layout t =
     \<lparr>layout_text = t, max_width = Some 40, single_paragraph = False,
      layout_width = None, ellipsize_end = False, underline_thickness = 1,
      underline_position = - 2, strikethrough_thickness = 1, strikethrough_position = 5,
      ascent = 12\<rparr>"

definition demo_style :: style where
  "demo_style =
     \<lparr>font_size = 16, visibility = ''visible'', text_decoration_line = [],
      text_decoration_color = ''black'', text_decoration_style = ''solid'',
      color = (0, 0, 0, 1), hyphenate_character = [8208], lang = ''en''\<rparr>"

definition demo_textbox :: "pystr \<Rightarrow> textbox" where
  "demo_textbox t =
     \<lparr>box_text = t, style = demo_style, position_x = 0, position_y = 0,
      baseline = 12, box_width = 40, pango_layout = demo_layout t\<rparr>"

text \<open>
  A document with a file specification and an annotation, and the attachment the file
  came from.
\<close>

definition demo_pdf :: pdf where
  "demo_pdf =
     \<lparr>objects =
        [OOther,
         ODict [(''Type'', PStr ''/Catalog'')],
         ODict [(''Type'', PStr ''/Filespec''), (''CheckSum'', PStr ''0cc175b9'')],
         ODict [(''Type'', PStr ''/Annot''), (''F'', PInt 0)]],
      catalog_number = 1\<rparr>"

definition demo_attachments :: "attachment list" where
  "demo_attachments = [\<lparr>md5 = Some ''0cc175b9'', relationship = ''Data''\<rparr>]"

section \<open>Properties\<close>

subsection \<open>The caches only grow\<close>

lemma font_le_refl: "font_le f f"
  by (simp add: font_le_def)

lemma font_le_trans: "font_le f g \<Longrightarrow> font_le g h \<Longrightarrow> font_le f h"
  unfolding font_le_def
  apply (intro conjI)
    apply (blast intro: map_le_trans)
   apply (blast intro: map_le_trans)
  apply (cases f, cases g, cases h)
  apply simp
  done

lemma cache_width_le: "font_le f (cache_width e fs pf g f)"
  by (cases f) (auto simp: font_le_def cache_width_def map_le_def)

lemma cache_cmap_le: "cache_cmap e t p q g f = Inr f' \<Longrightarrow> font_le f f'"
  by (cases f) (auto simp: font_le_def cache_cmap_def map_le_def split: if_splits option.splits)

lemma cache_cmap_widths: "cache_cmap e t p q g f = Inr f' \<Longrightarrow> widths f' = widths f"
  by (auto simp: cache_cmap_def split: if_splits option.splits)

lemma cache_width_dom: "g \<in> dom (widths (cache_width e fs pf g f))"
  by (auto simp: cache_width_def)

lemma font_le_flags:
  "font_le f f' \<Longrightarrow>
     svg f' = svg f \<and> png f' = png f \<and> bitmap f' = bitmap f \<and> hash f' = hash f
     \<and> upem f' = upem f \<and> png_table f' = png_table f \<and> svg_table f' = svg_table f"
proof -
  assume "font_le f f'"
  then have eq: "f' = f\<lparr>widths := widths f', cmap := cmap f'\<rparr>"
    by (simp add: font_le_def)
  show ?thesis
    using arg_cong[OF eq, of svg] arg_cong[OF eq, of png] arg_cong[OF eq, of bitmap]
      arg_cong[OF eq, of hash] arg_cong[OF eq, of upem] arg_cong[OF eq, of png_table]
      arg_cong[OF eq, of svg_table]
    by simp
qed

lemma show_glyph_fields:
  "show_glyph fs f gi st = Inr st1 \<Longrightarrow>
     fonts st1 = fonts st \<and> last_font st1 = last_font st \<and> x_advance st1 = x_advance st
     \<and> emojis st1 = emojis st \<and> previous_utf8_position st1 = previous_utf8_position st"
  by (auto simp: show_glyph_def Let_def split: if_splits sum.splits)

text \<open>The two ways through one turn of the glyph loop.\<close>

lemma glyph_step_cases:
  assumes "glyph_step e fs t pf key upos i gi st = Inr st'"
  obtains
    (sentinel) "is_sentinel (glyph gi)" "fs \<noteq> 0"
      "st' = st\<lparr>string := string st @ [Gt, NumF (- (of_int (width gi) / fs)), Lt]\<rparr>"
  | (visible) st1 f2 em w k where "\<not> is_sentinel (glyph gi)" "i < length upos" "fs \<noteq> 0"
      "show_glyph fs (fonts st key) gi st = Inr st1"
      "widths (cache_width e fs pf (glyph gi) (fonts st key)) (glyph gi) = Some w"
      "k = kerning_of e fs w gi"
      "cache_cmap e t (previous_utf8_position st) (upos ! i) (glyph gi)
         (cache_width e fs pf (glyph gi) (fonts st key)) = Inr f2"
      "emoji_of e fs pf key f2 (glyph gi) w (x_advance st) = Inr em"
      "st' = st1\<lparr>string := string st1 @ (if k \<noteq> 0 then [Gt, NumI k, Lt] else []),
              fonts := (fonts st)(key := f2),
              previous_utf8_position := upos ! i,
              emojis := emojis st @ em,
              x_advance := x_advance st + (of_int w + offset_of fs gi - of_int k) / 1000\<rparr>"
proof (cases "is_sentinel (glyph gi)")
  case True
  with assms sentinel show ?thesis
    by (auto simp: glyph_step_def Let_def split: if_splits)
next
  case False
  obtain w where w: "widths (cache_width e fs pf (glyph gi) (fonts st key)) (glyph gi) = Some w"
    using cache_width_dom[of "glyph gi" e fs pf "fonts st key"] by auto
  with False assms visible show ?thesis
    by (auto simp: glyph_step_def Let_def split: if_splits sum.splits)
qed

lemma glyph_step_fonts:
  assumes "glyph_step e fs t pf key upos i gi st = Inr st'"
  shows "\<exists>f'. fonts st' = (fonts st)(key := f') \<and> font_le (fonts st key) f'"
  using assms
proof (cases rule: glyph_step_cases)
  case sentinel
  then show ?thesis by (auto intro!: exI[of _ "fonts st key"] font_le_refl)
next
  case (visible st1 f2 em w k)
  then show ?thesis
    by (auto intro!: exI[of _ f2] font_le_trans[OF cache_width_le cache_cmap_le])
qed

lemma fonts_le_refl: "fonts_le F F"
  by (simp add: fonts_le_def font_le_refl)

lemma fonts_le_trans: "fonts_le F G \<Longrightarrow> fonts_le G H \<Longrightarrow> fonts_le F H"
  unfolding fonts_le_def by (blast intro: font_le_trans)

lemma glyph_step_fonts_le:
  "glyph_step e fs t pf key upos i gi st = Inr st' \<Longrightarrow> fonts_le (fonts st) (fonts st')"
  by (drule glyph_step_fonts) (auto simp: fonts_le_def font_le_refl)

lemma glyph_loop_fonts_le:
  "glyph_loop e fs t pf key upos i gis st = Inr st' \<Longrightarrow> fonts_le (fonts st) (fonts st')"
proof (induction gis arbitrary: i st)
  case Nil
  then show ?case by (simp add: fonts_le_refl)
next
  case (Cons gi gis)
  then show ?case
    by (auto split: sum.splits intro: fonts_le_trans glyph_step_fonts_le)
qed

lemma set_font_fonts: "fonts (set_font fs key st) = fonts st"
  by (simp add: set_font_def)

lemma run_step_fonts_le:
  "run_step e fs t r st = Inr st' \<Longrightarrow> fonts_le (fonts st) (fonts st')"
  unfolding run_step_def Let_def
  by (auto split: sum.splits dest!: glyph_loop_fonts_le simp: set_font_fonts)

lemma run_loop_fonts_le:
  "run_loop e fs t rs st = Inr st' \<Longrightarrow> fonts_le (fonts st) (fonts st')"
proof (induction rs arbitrary: st)
  case Nil
  then show ?case by (simp add: fonts_le_refl)
next
  case (Cons r rs)
  then show ?case
    by (auto split: sum.splits intro: fonts_le_trans run_step_fonts_le)
qed

lemma encode_line_fonts_le:
  "encode_line e fs txt m line s = Inr (em, s') \<Longrightarrow> fonts_le (fonts s) (fonts s')"
  unfolding encode_line_def
  by (auto split: option.splits prod.splits if_splits sum.splits dest!: run_loop_fonts_le)

lemma draw_first_line_fonts_le:
  "draw_first_line n e tb ov be m s = Some (Inr (em, lay, s')) \<Longrightarrow> fonts_le (fonts s) (fonts s')"
  unfolding draw_first_line_def
  by (auto split: option.splits prod.splits if_splits sum.splits
           dest!: encode_line_fonts_le simp: fonts_le_refl)

lemma fonts_le_widths:
  "fonts_le F F' \<Longrightarrow> widths (F k) g = Some w \<Longrightarrow> widths (F' k) g = Some w"
  by (auto simp: fonts_le_def font_le_def map_le_def dom_def)

lemma fonts_le_cmap:
  "fonts_le F F' \<Longrightarrow> cmap (F k) g = Some c \<Longrightarrow> cmap (F' k) g = Some c"
  by (auto simp: fonts_le_def font_le_def map_le_def dom_def)

lemmas demo_defs = demo_env_def demo_textbox_def demo_style_def demo_layout_def demo_stream_def
  demo_font_def demo_png_font_def demo_decode_def demo_encode_def demo_shape_def demo_glyph_def
  demo_last_word_end_def demo_enc_def

lemmas draw_defs = draw_first_line_def strip_def is_whitespace_def prepare_layout_def
  encode_line_def run_step_def set_font_def utf8_positions_def glyph_step_def is_sentinel_def
  PANGO_GLYPH_EMPTY_def PANGO_GLYPH_UNKNOWN_FLAG_def show_glyph_def offset_of_def rise_of_def
  cache_width_def kerning_of_def float_sum_def advance_permille_def units_to_double_def py_round_def py_int_def
  cache_cmap_def slice_def emoji_of_def close_group_def glyph_code_def truthy_bytes_def Let_def

subsection \<open>The caches of a font\<close>

text \<open>
  C1: an entry of \<^verbatim>\<open>widths\<close> or \<^verbatim>\<open>cmap\<close> that a font has is never overwritten: one turn
  of the glyph loop, and a whole call of \<^verbatim>\<open>draw_first_line\<close>, leave every entry they find
  as it is, for every font and every glyph. As the stream they start from is arbitrary,
  this holds from any glyph of a draw to any later one, and from a draw to the next.
\<close>

theorem caches_written_once:
  "(glyph_step e fs t pf key upos i gi st = Inr st' \<longrightarrow>
      (widths (fonts st k) g = Some w \<longrightarrow> widths (fonts st' k) g = Some w) \<and>
      (cmap (fonts st k) g = Some c \<longrightarrow> cmap (fonts st' k) g = Some c)) \<and>
   (draw_first_line n e tb text_overflow be matrix s = Some (Inr (em, lay, s')) \<longrightarrow>
      (widths (fonts s k) g = Some w \<longrightarrow> widths (fonts s' k) g = Some w) \<and>
      (cmap (fonts s k) g = Some c \<longrightarrow> cmap (fonts s' k) g = Some c))"
proof (intro conjI impI)
  assume "glyph_step e fs t pf key upos i gi st = Inr st'"
  then have le: "fonts_le (fonts st) (fonts st')" by (rule glyph_step_fonts_le)
  { assume "widths (fonts st k) g = Some w"
    with le show "widths (fonts st' k) g = Some w" by (rule fonts_le_widths) }
  { assume "cmap (fonts st k) g = Some c"
    with le show "cmap (fonts st' k) g = Some c" by (rule fonts_le_cmap) }
next
  assume "draw_first_line n e tb text_overflow be matrix s = Some (Inr (em, lay, s'))"
  then have le: "fonts_le (fonts s) (fonts s')" by (rule draw_first_line_fonts_le)
  { assume "widths (fonts s k) g = Some w"
    with le show "widths (fonts s' k) g = Some w" by (rule fonts_le_widths) }
  { assume "cmap (fonts s k) g = Some c"
    with le show "cmap (fonts s' k) g = Some c" by (rule fonts_le_cmap) }
qed

theorem caches_written_once_witness:
  "\<exists>em lay s'.
     draw_first_line 0 demo_env (demo_textbox [72, 105]) ''clip'' BE_none (1, 0, 0, - 1, 0, 12)
       (demo_stream\<lparr>fonts := (\<lambda>k. demo_font\<lparr>widths := [72 \<mapsto> 480], cmap := [72 \<mapsto> [104]]\<rparr>)\<rparr>)
       = Some (Inr (em, lay, s'))
     \<and> widths (fonts s' 0) 72 = Some 480 \<and> cmap (fonts s' 0) 72 = Some [104]
     \<and> widths (fonts s' 0) 105 = Some 500 \<and> cmap (fonts s' 0) 105 = Some [105]"
proof -
  let ?s = "demo_stream\<lparr>fonts := (\<lambda>k. demo_font\<lparr>widths := [72 \<mapsto> 480], cmap := [72 \<mapsto> [104]]\<rparr>)\<rparr>"
  obtain r where r: "draw_first_line 0 demo_env (demo_textbox [72, 105]) ''clip'' BE_none
      (1, 0, 0, - 1, 0, 12) ?s = Some (Inr r)"
    and new: "widths (fonts (snd (snd r)) 0) 105 = Some 500 \<and> cmap (fonts (snd (snd r)) 0) 105 = Some [105]"
    by (simp add: draw_defs demo_defs)
  obtain em lay s' where [simp]: "r = (em, lay, s')" by (cases r) auto
  have "widths (fonts ?s 0) 72 = Some 480" "cmap (fonts ?s 0) 72 = Some [104]"
    by (simp_all add: demo_defs)
  with caches_written_once[where k = 0 and g = 72 and w = 480 and c = "[104]" and n = 0
      and e = demo_env and tb = "demo_textbox [72, 105]" and text_overflow = "''clip''"
      and be = BE_none and matrix = "(1, 0, 0, - 1, 0, 12)" and s = ?s and em = em and lay = lay
      and s' = s'] new r
  show ?thesis by auto
qed

subsection \<open>Glyphs that are not drawn\<close>

text \<open>
  For the empty glyph and for a glyph with the unknown flag, the loop appends to the
  string the adjustment \<^verbatim>\<open>-width / font_size\<close> between \<^verbatim>\<open>>\<close> and \<^verbatim>\<open><\<close>; it appends no glyph
  code, calls nothing on the stream and leaves the fonts, and so their caches, as they
  are.
\<close>

lemma sentinel_glyph_step:
  "is_sentinel (glyph gi) \<Longrightarrow> fs \<noteq> 0 \<Longrightarrow>
     glyph_step e fs t pf key upos i gi st =
       Inr (st\<lparr>string := string st @ [Gt, NumF (- (of_int (width gi) / fs)), Lt]\<rparr>)"
  by (simp add: glyph_step_def)

text \<open>
  C5: the code at an empty glyph with an advance of 1024 Pango units, at a font size of
  16. The advance is 62.5 per-mille, as line 202 converts it for the kerning; the
  adjustment appended is -64, the advance in Pango units divided by the font size, which
  is 1.024 times the negative of the advance. Nothing else changes: no glyph code, no
  call on the stream, the fonts as they were.
\<close>

theorem sentinel_adjustment_slip:
  "glyph_step demo_env 16 [] 0 0 [0] 0
       \<lparr>glyph = PANGO_GLYPH_EMPTY, width = 1024, x_offset = 0, y_offset = 0\<rparr> demo_enc =
     Inr (demo_enc\<lparr>string := [Lt, Gt, NumF (- 64), Lt]\<rparr>)
   \<and> - advance_permille 16 \<lparr>glyph = PANGO_GLYPH_EMPTY, width = 1024, x_offset = 0, y_offset = 0\<rparr>
       = - (125 / 2)"
  by (simp add: glyph_step_def is_sentinel_def demo_enc_def advance_permille_def units_to_double_def)

subsection \<open>Glyphs with a rise\<close>

lemma show_glyph_rise:
  assumes "show_glyph fs f gi st = Inr st1" "fs \<noteq> 0"
  shows "(y_offset gi \<noteq> 0 \<longrightarrow>
           (\<exists>s. close_group (string st) = Inr s \<and>
              ops st1 = ops st @
                [ShowText s,
                 SetTextRise (- (of_int (y_offset gi) / 1000)),
                 ShowText ((if x_offset gi \<noteq> 0 then [NumF (- (of_int (x_offset gi) / fs))] else [])
                           @ [Lt, glyph_code f (glyph gi), Gt]),
                 SetTextRise 0] \<and>
              string st1 = [Lt]))
       \<and> (y_offset gi = 0 \<longrightarrow> ops st1 = ops st)"
proof (cases "y_offset gi = 0")
  case True
  with assms show ?thesis
    by (auto simp: show_glyph_def Let_def rise_of_def)
next
  case False
  then have r: "rise_of gi \<noteq> 0" by (simp add: rise_of_def)
  from assms(1) r obtain s where s: "close_group (string st) = Inr s"
    by (cases "close_group (string st)") (simp_all add: show_glyph_def Let_def)
  from assms r s False show ?thesis
    by (auto simp: show_glyph_def Let_def rise_of_def offset_of_def)
qed

text \<open>
  C4, as amended: a glyph that is not a sentinel and has a vertical offset is shown by
  four calls: the string so far is closed and shown, the rise is set to
  \<^verbatim>\<open>-(y_offset / 1000)\<close>, the glyph is shown alone (after its horizontal offset, if any),
  and the rise is set to 0; the string starts again with \<^verbatim>\<open><\<close>, followed at most by the
  kerning of the glyph. A glyph without vertical offset calls nothing on the stream, so
  no string that is shown spans a change of the rise.
\<close>

theorem rise_isolation:
  assumes "\<not> is_sentinel (glyph gi)"
    and "glyph_step e fs t pf key upos i gi st = Inr st'"
  shows "(y_offset gi \<noteq> 0 \<longrightarrow>
           (\<exists>s k. close_group (string st) = Inr s \<and>
              ops st' = ops st @
                [ShowText s,
                 SetTextRise (- (of_int (y_offset gi) / 1000)),
                 ShowText ((if x_offset gi \<noteq> 0 then [NumF (- (of_int (x_offset gi) / fs))] else [])
                           @ [Lt, glyph_code (fonts st key) (glyph gi), Gt]),
                 SetTextRise 0] \<and>
              string st' = Lt # (if k \<noteq> 0 then [Gt, NumI k, Lt] else [])))
       \<and> (y_offset gi = 0 \<longrightarrow> ops st' = ops st)"
  using assms(2)
proof (cases rule: glyph_step_cases)
  case sentinel
  with assms(1) show ?thesis by simp
next
  case (visible st1 f2 em w k)
  have ops: "ops st' = ops st1" and str: "string st' = string st1 @ (if k \<noteq> 0 then [Gt, NumI k, Lt] else [])"
    unfolding visible(9) by simp_all
  from show_glyph_rise[OF visible(4) visible(3)] show ?thesis
    unfolding ops str by auto
qed


theorem rise_isolation_witness:
  "\<not> is_sentinel 65 \<and>
   ops (projr (glyph_step demo_env 16 ''A'' 0 0 [1] 0
      \<lparr>glyph = 65, width = 8192, x_offset = 0, y_offset = 2000\<rparr>
      (demo_enc\<lparr>string := [Lt, Hex 4 66]\<rparr>))) =
     [ShowText [Lt, Hex 4 66, Gt], SetTextRise (- 2), ShowText [Lt, Hex 4 65, Gt], SetTextRise 0]"
proof -
  let ?gi = "\<lparr>glyph = 65, width = 8192, x_offset = 0, y_offset = 2000\<rparr>"
  let ?st = "demo_enc\<lparr>string := [Lt, Hex 4 66]\<rparr>"
  have s: "\<not> is_sentinel (glyph ?gi)"
    by (simp add: is_sentinel_def PANGO_GLYPH_EMPTY_def PANGO_GLYPH_UNKNOWN_FLAG_def)
  obtain st' where r: "glyph_step demo_env 16 ''A'' 0 0 [1] 0 ?gi ?st = Inr st'"
    by (simp add: draw_defs demo_defs)
  have c: "close_group (string ?st) = Inr [Lt, Hex 4 66, Gt]"
    by (simp add: close_group_def demo_enc_def)
  have g: "glyph_code (fonts ?st 0) 65 = Hex 4 65"
    by (simp add: glyph_code_def demo_enc_def demo_font_def)
  show ?thesis using rise_isolation[OF s r] s r c g by (simp add: demo_enc_def)
qed


text \<open>
  The claim as stated fails twice: the rise set for a vertical offset of 2000 is -2, not
  2000, and an empty glyph with a vertical offset is not shown at all.
\<close>

theorem rise_isolation_counterexample:
  "ops (projr (glyph_step demo_env 16 ''A'' 0 0 [1] 0
      \<lparr>glyph = 65, width = 8192, x_offset = 0, y_offset = 2000\<rparr>
      (demo_enc\<lparr>string := [Lt, Hex 4 66]\<rparr>))) =
     [ShowText [Lt, Hex 4 66, Gt], SetTextRise (- 2), ShowText [Lt, Hex 4 65, Gt], SetTextRise 0]
   \<and> SetTextRise 2000 \<notin> set (ops (projr (glyph_step demo_env 16 ''A'' 0 0 [1] 0
      \<lparr>glyph = 65, width = 8192, x_offset = 0, y_offset = 2000\<rparr>
      (demo_enc\<lparr>string := [Lt, Hex 4 66]\<rparr>))))
   \<and> ops (projr (glyph_step demo_env 16 ''A'' 0 0 [1] 0
      \<lparr>glyph = PANGO_GLYPH_EMPTY, width = 8192, x_offset = 0, y_offset = 2000\<rparr>
      (demo_enc\<lparr>string := [Lt, Hex 4 66]\<rparr>))) = []"
  by (simp add: draw_defs demo_defs)

subsection \<open>Emojis\<close>

lemma emoji_of_png:
  assumes "\<not> svg f" "png f" "png_table f g = Some d" "d \<noteq> []" "image_open e d = Some (iw, ih)"
    and "emoji_of e fs pf key f g w xadv = Inr em"
  shows "\<exists>x. em = [x] \<and> em_d x = of_int w / 1000 \<and> em_a x = of_nat iw / of_nat ih * em_d x
           \<and> em_e x = xadv"
proof -
  obtain rx ry rw rh where r: "logical_rect e pf g = (rx, ry, rw, rh)"
    by (cases "logical_rect e pf g") auto
  have t: "truthy_bytes (png_table f g)"
    using assms(3,4) by (simp add: truthy_bytes_def)
  show ?thesis
  proof (cases "ih = 0")
    case True
    with assms(1,2,3,5) t have "emoji_of e fs pf key f g w xadv = Inl ZeroDivisionError"
      by (simp add: emoji_of_def)
    with assms(6) show ?thesis by simp
  next
    case False
    with assms(1,2,3,5) t r have "emoji_of e fs pf key f g w xadv =
      Inr [\<lparr>em_image = RasterImage iw ih (hash f @ decimal (unat g)) d,
            em_font = key, em_a = of_nat iw / of_nat ih * (of_int w / 1000),
            em_d = of_int w / 1000, em_e = xadv,
            em_f = units_to_double (- ry - rh) / fs - fs\<rparr>]"
      by (simp add: emoji_of_def Let_def)
    with assms(6) show ?thesis by auto
  qed
qed

text \<open>The font of the run after a turn for a glyph that is drawn.\<close>

lemma glyph_step_visible_font:
  assumes "glyph_step e fs t pf key upos i gi st = Inr st'" "\<not> is_sentinel (glyph gi)"
  obtains f2 em w where
    "font_le (fonts st key) f2" "fonts st' key = f2" "widths f2 (glyph gi) = Some w"
    "emoji_of e fs pf key f2 (glyph gi) w (x_advance st) = Inr em"
    "emojis st' = emojis st @ em"
  using assms(1)
proof (cases rule: glyph_step_cases)
  case sentinel
  with assms(2) show ?thesis by simp
next
  case (visible st1 f2 em w k)
  have "font_le (fonts st key) f2"
    using font_le_trans[OF cache_width_le cache_cmap_le[OF visible(7)]] .
  moreover have "widths f2 (glyph gi) = Some w"
    using cache_cmap_widths[OF visible(7)] visible(5) by simp
  moreover have "fonts st' key = f2" "emojis st' = emojis st @ em"
    unfolding visible(9) by simp_all
  ultimately show ?thesis using that visible(8) by blast
qed

text \<open>
  C8, as amended: for a glyph that is drawn, in a font of raster images that is not also
  a font of SVG images,
  with an image for it that the decoder opens, the turn of the glyph loop appends one
  emoji whose vertical scale \<open>em_d\<close> is the width the font declares for the glyph divided by
  1000 and whose horizontal scale \<open>em_a\<close> is the width of the image divided by its height,
  times \<open>em_d\<close>. With a declared width of 1000 and an image of 2 by 1, \<open>em_d\<close> is 1 and
  \<open>em_a\<close> is 2.
\<close>

theorem raster_emoji_scale:
  assumes "\<not> is_sentinel (glyph gi)"
    and "\<not> svg (fonts st key)" and "png (fonts st key)"
    and "png_table (fonts st key) (glyph gi) = Some d" and "d \<noteq> []"
    and "image_open e d = Some (iw, ih)"
    and "glyph_step e fs t pf key upos i gi st = Inr st'"
  shows "\<exists>x. emojis st' = emojis st @ [x] \<and>
           em_d x = of_int (the (widths (fonts st' key) (glyph gi))) / 1000 \<and>
           em_a x = of_nat iw / of_nat ih * em_d x"
proof -
  from assms(7,1) obtain f2 em w where
    le: "font_le (fonts st key) f2" and f2: "fonts st' key = f2"
    and w: "widths f2 (glyph gi) = Some w"
    and em: "emoji_of e fs pf key f2 (glyph gi) w (x_advance st) = Inr em"
    and ems: "emojis st' = emojis st @ em"
    by (rule glyph_step_visible_font)
  from font_le_flags[OF le] assms(2-4)
  have "\<not> svg f2" "png f2" "png_table f2 (glyph gi) = Some d" by simp_all
  from emoji_of_png[OF this assms(5,6) em] ems f2 w show ?thesis by auto
qed

theorem raster_emoji_scale_witness:
  "\<not> is_sentinel 65 \<and> \<not> svg demo_png_font \<and> png demo_png_font
   \<and> png_table demo_png_font 65 = Some ''img'' \<and> ''img'' \<noteq> []
   \<and> image_open demo_env ''img'' = Some (2, 1)
   \<and> map em_d (emojis (projr (glyph_step demo_env 16 ''A'' 0 1 [1] 0 (demo_glyph 65) demo_enc))) = [1]
   \<and> map em_a (emojis (projr (glyph_step demo_env 16 ''A'' 0 1 [1] 0 (demo_glyph 65) demo_enc))) = [2]"
proof -
  have g: "glyph (demo_glyph 65) = 65" by (simp add: demo_glyph_def)
  have f: "fonts demo_enc 1 = demo_png_font" by (simp add: demo_enc_def)
  have 0: "\<not> is_sentinel 65"
    by (simp add: is_sentinel_def PANGO_GLYPH_EMPTY_def PANGO_GLYPH_UNKNOWN_FLAG_def)
  have 2: "\<not> svg demo_png_font" and 3: "png demo_png_font"
    and 4: "png_table demo_png_font 65 = Some ''img''"
    by (simp_all add: demo_png_font_def)
  have 5: "''img'' \<noteq> []" by simp
  have 6: "image_open demo_env ''img'' = Some (2, 1)" by (simp add: demo_env_def)
  obtain st' where 7: "glyph_step demo_env 16 ''A'' 0 1 [1] 0 (demo_glyph 65) demo_enc = Inr st'"
    and w: "widths (fonts st' 1) 65 = Some 1000"
    by (simp add: draw_defs demo_defs)
  have p: "projr (glyph_step demo_env 16 ''A'' 0 1 [1] 0 (demo_glyph 65) demo_enc) = st'"
    unfolding 7 by simp
  have e0: "emojis demo_enc = []" by (simp add: demo_enc_def)
  from raster_emoji_scale[of "demo_glyph 65" demo_enc 1 "''img''" demo_env 2 1, unfolded g f,
      OF 0 2 3 4 5 6 7]
  obtain x where "emojis st' = [x]" "em_d x = 1" "em_a x = 2"
    unfolding e0 w by auto
  then show ?thesis unfolding p using 0 2 3 4 6 by simp
qed

text \<open>
  The claim as stated fails in a font with both kinds of images: lines 213 and 229 look
  for an SVG first, and the glyph with a raster image of 2 by 1 and a declared width of
  1000 gets the scales of its SVG, both 1000 / 1000 / upem * font_size = 2/125.
\<close>

theorem raster_emoji_scale_counterexample:
  "png demo_svg_png_font \<and> png_table demo_svg_png_font 65 = Some ''img''
   \<and> image_open demo_env ''img'' = Some (2, 1)
   \<and> widths demo_svg_png_font 65 = Some 1000
   \<and> \<not> isl (glyph_step demo_env 16 ''A'' 0 1 [1] 0 (demo_glyph 65)
              (demo_enc\<lparr>fonts := (\<lambda>k. demo_svg_png_font)\<rparr>))
   \<and> map em_d (emojis (projr (glyph_step demo_env 16 ''A'' 0 1 [1] 0 (demo_glyph 65)
              (demo_enc\<lparr>fonts := (\<lambda>k. demo_svg_png_font)\<rparr>)))) = [2 / 125]
   \<and> map em_a (emojis (projr (glyph_step demo_env 16 ''A'' 0 1 [1] 0 (demo_glyph 65)
              (demo_enc\<lparr>fonts := (\<lambda>k. demo_svg_png_font)\<rparr>)))) = [2 / 125]"
  by (simp add: draw_defs demo_defs demo_svg_png_font_def)

subsection \<open>Images that cannot be decoded\<close>

lemma emoji_of_undecodable:
  assumes "undecodable e f gi"
  shows "\<exists>err. emoji_of e fs pf key f (glyph gi) w xadv = Inl err"
proof (cases "svg f")
  case True
  with assms obtain d where "svg_table f (glyph gi) = Some d" "d \<noteq> []" "\<not> svg_fromstring e d"
    by (auto simp: undecodable_def split: option.splits)
  with True show ?thesis by (simp add: emoji_of_def truthy_bytes_def)
next
  case False
  with assms obtain d where "png f" "png_table f (glyph gi) = Some d" "d \<noteq> []"
    "image_open e d = None"
    by (auto simp: undecodable_def split: option.splits)
  with False show ?thesis by (simp add: emoji_of_def truthy_bytes_def)
qed

lemma undecodable_font_le: "font_le f f' \<Longrightarrow> undecodable e f gi \<Longrightarrow> undecodable e f' gi"
  using font_le_flags[of f f'] by (simp add: undecodable_def)

lemma glyph_step_undecodable:
  assumes "undecodable e (fonts st key) gi"
  shows "\<exists>err. glyph_step e fs t pf key upos i gi st = Inl err"
proof (cases "glyph_step e fs t pf key upos i gi st")
  case (Inl err)
  then show ?thesis by blast
next
  case (Inr st')
  from assms have ns: "\<not> is_sentinel (glyph gi)" by (simp add: undecodable_def)
  from Inr ns obtain f2 em w where
    le: "font_le (fonts st key) f2"
    and em: "emoji_of e fs pf key f2 (glyph gi) w (x_advance st) = Inr em"
    by (rule glyph_step_visible_font)
  from emoji_of_undecodable[OF undecodable_font_le[OF le assms], of fs pf key w "x_advance st"] em
  show ?thesis by simp
qed

lemma fonts_le_undecodable:
  "fonts_le F F' \<Longrightarrow> undecodable e (F k) gi \<Longrightarrow> undecodable e (F' k) gi"
  by (auto simp: fonts_le_def intro: undecodable_font_le)

lemma glyph_loop_undecodable:
  assumes "gi \<in> set gis" "undecodable e (fonts st key) gi"
  shows "\<exists>err. glyph_loop e fs t pf key upos i gis st = Inl err"
  using assms
proof (induction gis arbitrary: i st)
  case Nil
  then show ?case by simp
next
  case (Cons g gis)
  show ?case
  proof (cases "glyph_step e fs t pf key upos i g st")
    case (Inl err)
    then show ?thesis by simp
  next
    case (Inr st1)
    with glyph_step_undecodable[of e st key g fs t pf upos i] Cons.prems
    have "gi \<in> set gis" by auto
    moreover have "undecodable e (fonts st1 key) gi"
      using fonts_le_undecodable[OF glyph_step_fonts_le[OF Inr]] Cons.prems(2) .
    ultimately show ?thesis using Cons.IH Inr by simp
  qed
qed

lemma run_step_undecodable:
  assumes "gi \<in> set (glyphs r)" "undecodable e (fonts st (font_key e (pango_font r))) gi"
  shows "\<exists>err. run_step e fs t r st = Inl err"
proof -
  from assms(2) have "undecodable e (fonts (set_font fs (font_key e (pango_font r)) st)
      (font_key e (pango_font r))) gi"
    by (simp add: set_font_fonts)
  from glyph_loop_undecodable[OF assms(1) this, of fs t "pango_font r" "utf8_positions r" 0]
  show ?thesis by (auto simp: run_step_def Let_def)
qed

lemma run_loop_undecodable:
  assumes "r \<in> set rs" "gi \<in> set (glyphs r)"
    "undecodable e (fonts st (font_key e (pango_font r))) gi"
  shows "\<exists>err. run_loop e fs t rs st = Inl err"
  using assms
proof (induction rs arbitrary: st)
  case Nil
  then show ?case by simp
next
  case (Cons r0 rs)
  show ?case
  proof (cases "run_step e fs t r0 st")
    case (Inl err)
    then show ?thesis by simp
  next
    case (Inr st1)
    with run_step_undecodable[of gi r0 e st fs t] Cons.prems
    have "r \<in> set rs" by auto
    moreover have "undecodable e (fonts st1 (font_key e (pango_font r))) gi"
      using fonts_le_undecodable[OF run_step_fonts_le[OF Inr]] Cons.prems(3) .
    ultimately show ?thesis using Cons.IH Cons.prems(2) Inr by simp
  qed
qed

text \<open>
  C7, as amended: when a glyph of the line that is drawn has image data that the decoder
  refuses (an SVG that does not parse in a font of SVG images, a raster image that does
  not open in a font of raster images only), nothing catches the exception: the encoding
  of the line ends with an error and returns no list of emojis, whatever the other
  glyphs are; and so does \<^verbatim>\<open>draw_first_line\<close> when it encodes the line as shaped, without
  ellipsis.
\<close>

theorem undecodable_image_aborts:
  assumes "r \<in> set line" and "gi \<in> set (glyphs r)"
    and "undecodable e (fonts s (font_key e (pango_font r))) gi"
  shows "(\<exists>err. encode_line e fs txt matrix line s = Inl err)
       \<and> (strip (box_text tb) \<noteq> [] \<and> \<not> font_size (style tb) < 1 / 1000000
          \<and> text_overflow \<noteq> ''ellipsis'' \<and> be = BE_none
          \<and> fst (get_first_line e ((pango_layout tb)\<lparr>single_paragraph := True\<rparr>)) = line \<longrightarrow>
          (\<exists>err. draw_first_line n e tb text_overflow be matrix s = Some (Inl err)))"
proof -
  have enc: "\<exists>err. encode_line e fs' txt' matrix line s = Inl err" for fs' txt'
  proof (cases "encode e txt'")
    case None
    then show ?thesis by (simp add: encode_line_def)
  next
    case (Some utf8_text)
    obtain ma mb mc md me mf where m: "matrix = (ma, mb, mc, md, me, mf)"
      by (cases matrix) auto
    let ?st = "\<lparr>ops = ops s @ [SetTextMatrix ma mb mc md me mf], fonts = fonts s,
        string = [], last_font = None, x_advance = 0, emojis = [],
        previous_utf8_position = 0\<rparr>"
    from assms(3) have "undecodable e (fonts ?st (font_key e (pango_font r))) gi" by simp
    from run_loop_undecodable[OF assms(1,2) this, of fs' utf8_text]
    show ?thesis using Some m by (auto simp: encode_line_def)
  qed
  show ?thesis
  proof (intro conjI impI)
    show "\<exists>err. encode_line e fs txt matrix line s = Inl err" by (rule enc)
  next
    assume a: "strip (box_text tb) \<noteq> [] \<and> \<not> font_size (style tb) < 1 / 1000000
          \<and> text_overflow \<noteq> ''ellipsis'' \<and> be = BE_none
          \<and> fst (get_first_line e ((pango_layout tb)\<lparr>single_paragraph := True\<rparr>)) = line"
    let ?lay = "(pango_layout tb)\<lparr>single_paragraph := True\<rparr>"
    from a have p: "prepare_layout e (style tb) text_overflow be (pango_layout tb) = Inr (?lay, None)"
      by (simp add: prepare_layout_def)
    from enc[of "font_size (style tb)" "layout_text ?lay"] obtain err where
      "encode_line e (font_size (style tb)) (layout_text ?lay) matrix line s = Inl err"
      by blast
    with a p have "draw_first_line n e tb text_overflow be matrix s = Some (Inl err)"
      by (simp add: draw_first_line_def split_beta)
    then show "\<exists>err. draw_first_line n e tb text_overflow be matrix s = Some (Inl err)"
      by blast
  qed
qed

theorem undecodable_image_aborts_witness:
  "undecodable demo_png_env (fonts demo_stream 1) (demo_glyph 66)
   \<and> encode_line demo_png_env 16 [66] (1, 0, 0, - 1, 0, 12) (fst (demo_shape (demo_layout [66])))
        demo_stream = Inl ImageError
   \<and> strip (box_text (demo_textbox [66])) \<noteq> []
   \<and> \<not> font_size (style (demo_textbox [66])) < 1 / 1000000
   \<and> draw_first_line 0 demo_png_env (demo_textbox [66]) ''clip'' BE_none (1, 0, 0, - 1, 0, 12)
        demo_stream = Some (Inl ImageError)
   \<and> undecodable demo_env demo_svg_png_font (demo_glyph 66)
   \<and> encode_line demo_env 16 [66] (1, 0, 0, - 1, 0, 12) (fst (demo_shape (demo_layout [66])))
        (demo_stream\<lparr>fonts := (\<lambda>k. demo_svg_png_font)\<rparr>) = Inl ParseError"
proof -
  let ?r = "\<lparr>pango_font = 0, item_offset = 0, item_length = 1, glyphs = [demo_glyph 66],
      log_clusters = [0]\<rparr>"
  let ?line = "fst (demo_shape (demo_layout [66]))"
  let ?svg = "demo_stream\<lparr>fonts := (\<lambda>k. demo_svg_png_font)\<rparr>"
  have 1: "?r \<in> set ?line"
    by (simp add: demo_shape_def demo_layout_def)
  have 2: "demo_glyph 66 \<in> set (glyphs ?r)" by simp
  have ns: "\<not> is_sentinel (glyph (demo_glyph 66))"
    by (simp add: demo_glyph_def is_sentinel_def PANGO_GLYPH_EMPTY_def PANGO_GLYPH_UNKNOWN_FLAG_def)
  have 3: "undecodable demo_png_env (fonts demo_stream (font_key demo_png_env (pango_font ?r)))
      (demo_glyph 66)"
    using ns
    by (simp add: undecodable_def demo_png_env_def demo_env_def demo_stream_def demo_png_font_def
        demo_glyph_def)
  have 4: "undecodable demo_env (fonts ?svg (font_key demo_env (pango_font ?r))) (demo_glyph 66)"
    using ns
    by (simp add: undecodable_def demo_env_def demo_svg_png_font_def demo_png_font_def
        demo_glyph_def)
  have k: "font_key demo_png_env (pango_font ?r) = 1" "fonts ?svg (font_key demo_env (pango_font ?r))
      = demo_svg_png_font"
    by (simp_all add: demo_png_env_def)
  have t: "strip (box_text (demo_textbox [66])) \<noteq> []"
    "\<not> font_size (style (demo_textbox [66])) < 1 / 1000000"
    by (simp_all add: demo_textbox_def demo_style_def strip_def is_whitespace_def)
  have l: "fst (get_first_line demo_png_env ((pango_layout (demo_textbox [66]))
      \<lparr>single_paragraph := True\<rparr>)) = ?line"
    by (simp add: demo_png_env_def demo_env_def demo_textbox_def demo_shape_def demo_layout_def)
  have ev: "encode_line demo_png_env 16 [66] (1, 0, 0, - 1, 0, 12) ?line demo_stream
      = Inl ImageError"
    by (simp add: draw_defs demo_defs demo_png_env_def)
  have ev2: "encode_line demo_env 16 [66] (1, 0, 0, - 1, 0, 12) ?line ?svg = Inl ParseError"
    by (simp add: draw_defs demo_defs demo_svg_png_font_def)
  have ev3: "draw_first_line 0 demo_png_env (demo_textbox [66]) ''clip'' BE_none
      (1, 0, 0, - 1, 0, 12) demo_stream = Some (Inl ImageError)"
    by (simp add: draw_defs demo_defs demo_png_env_def)
  note a = undecodable_image_aborts[OF 1 2 3, of 16 "[66]" "(1, 0, 0, - 1, 0, 12)"
      "demo_textbox [66]" "''clip''" BE_none 0]
  note b = undecodable_image_aborts[OF 1 2 4, of 16 "[66]" "(1, 0, 0, - 1, 0, 12)"
      "demo_textbox [66]" "''clip''" BE_none 0]
  from a b 3 4 k t l ev ev2 ev3 show ?thesis by simp
qed

text \<open>The claim as stated fails: the draw of a line with such a glyph is aborted.\<close>

theorem undecodable_image_counterexample:
  "draw_first_line 0 demo_png_env (demo_textbox [66]) ''clip'' BE_none (1, 0, 0, - 1, 0, 12)
     demo_stream = Some (Inl ImageError)"
  by (simp add: draw_defs demo_defs demo_png_env_def)

subsection \<open>Widths, kerning and advances\<close>

lemma floor_rat_numeral [simp]:
  "\<lfloor>numeral a / numeral b :: rat\<rfloor> = numeral a div numeral b"
  "\<lfloor>- (numeral a / numeral b) :: rat\<rfloor> = - numeral a div numeral b"
  using floor_divide_of_int_eq[of "numeral a" "numeral b", where ?'a = rat]
    floor_divide_of_int_eq[of "- numeral a" "numeral b", where ?'a = rat]
  by simp_all

lemma ceiling_rat_numeral [simp]:
  "\<lceil>numeral a / numeral b :: rat\<rceil> = - (- numeral a div numeral b)"
  "\<lceil>- (numeral a / numeral b) :: rat\<rceil> = - (numeral a div numeral b)"
  using floor_rat_numeral[of a b] by (simp_all add: ceiling_def)










subsection \<open>Textboxes with nothing to draw\<close>







subsection \<open>The truncation loop\<close>

declare trunc_loop.simps [simp del]










subsection \<open>The PDF/A finalizer\<close>



lemma map_of_update: "map_of (AList.update k v al) a = (if a = k then Some v else map_of al a)"
  by (simp add: update_conv')

lemma dict_has_update:
  "a \<noteq> k \<Longrightarrow> dict_has a x (ODict (AList.update k v d)) = dict_has a x (ODict d)"
  by (simp add: dict_has_def map_of_update)

lemma catalog_in_objects: "catalog p = Some d \<Longrightarrow> objects p ! catalog_number p = ODict d
    \<and> catalog_number p < length (objects p)"
  by (auto simp: catalog_def split: if_splits pobj.splits)

lemma catalog_set_length: "length (objects (catalog_set k v p)) = length (objects p)"
  by (simp add: catalog_set_def split: option.splits)

lemma catalog_set_number: "catalog_number (catalog_set k v p) = catalog_number p"
  by (simp add: catalog_set_def split: option.splits)

lemma catalog_set_nth:
  "objects (catalog_set k v p) ! i =
     (case catalog p of
        Some d \<Rightarrow> if i = catalog_number p then ODict (AList.update k v d) else objects p ! i
      | None \<Rightarrow> objects p ! i)"
  by (auto simp: catalog_set_def dest: catalog_in_objects split: option.splits)

lemma catalog_set_dict_has:
  assumes "a \<noteq> k"
  shows "dict_has a x (objects (catalog_set k v p) ! i) = dict_has a x (objects p ! i)"
  using assms
  by (auto simp: catalog_set_nth dict_has_update dest: catalog_in_objects split: option.splits)


lemma print_annotation_dict_has:
  "a \<noteq> ''F'' \<Longrightarrow> dict_has a x (print_annotation ob) = dict_has a x ob"
  by (cases ob) (simp_all add: print_annotation_def dict_has_update)

lemma print_annotation_printed:
  assumes "dict_has ''Type'' (Some (PStr ''/Annot'')) (print_annotation ob)"
  shows "dict_has ''F'' (Some (PInt 4)) (print_annotation ob)"
proof -
  from assms have t: "dict_has ''Type'' (Some (PStr ''/Annot'')) ob"
    by (simp add: print_annotation_dict_has)
  then obtain d where "ob = ODict d" "map_of d ''Type'' = Some (PStr ''/Annot'')"
    by (auto simp: dict_has_def)
  then show ?thesis
    by (simp add: print_annotation_def dict_has_def map_of_update)
qed

text \<open>What \<^verbatim>\<open>add_metadata\<close> keeps.\<close>

lemma add_metadata_length: "length (objects (add_metadata xml c p)) = Suc (length (objects p))"
  by (simp add: add_metadata_def catalog_set_length add_object_def)

lemma add_metadata_dict_has:
  assumes "a \<noteq> ''Metadata''" "i < length (objects p)"
  shows "dict_has a x (objects (add_metadata xml c p) ! i) = dict_has a x (objects p ! i)"
  using assms
  by (simp add: add_metadata_def catalog_set_dict_has add_object_def nth_append)

lemma add_metadata_last:
  "\<not> dict_has a (Some x) (objects (add_metadata xml c p) ! length (objects p))
   \<or> a = ''Metadata''"
  by (auto simp: add_metadata_def catalog_set_nth add_object_def nth_append dict_has_def
      catalog_def split: option.splits if_splits)


text \<open>What the loop over the file specifications does to each object.\<close>

lemma tag_filespecs_Cons:
  assumes "tag_filespecs rels i (ob # obs) = Inr (obs', refs)"
  obtains ob' obs1 refs1 where
    "tag_filespecs rels (Suc i) obs = Inr (obs1, refs1)" "obs' = ob' # obs1"
    "if dict_has ''Type'' (Some (PStr ''/Filespec'')) ob
     then \<exists>d c r. ob = ODict d \<and> map_of d ''CheckSum'' = Some c
            \<and> get_relationship rels c = Inr r
            \<and> ob' = ODict (AList.update ''AFRelationship'' (PStr (CHR ''/'' # r)) d)
            \<and> refs = PRef i # refs1
     else ob' = ob \<and> refs = refs1"
  using assms
  by (cases ob) (auto simp: dict_has_def split: if_splits option.splits sum.splits prod.splits)

lemma tag_filespecs_nth:
  assumes "tag_filespecs rels i obs = Inr (obs', refs)" "j < length obs"
  shows "length obs' = length obs \<and>
    (if dict_has ''Type'' (Some (PStr ''/Filespec'')) (obs ! j)
     then \<exists>d c r. obs ! j = ODict d \<and> map_of d ''CheckSum'' = Some c
            \<and> get_relationship rels c = Inr r
            \<and> obs' ! j = ODict (AList.update ''AFRelationship'' (PStr (CHR ''/'' # r)) d)
            \<and> PRef (i + j) \<in> set refs
     else obs' ! j = obs ! j)"
  using assms
proof (induction obs arbitrary: i j obs' refs)
  case Nil
  then show ?case by simp
next
  case (Cons ob obs)
  from Cons.prems(1) obtain ob' obs1 refs1 where
    rest: "tag_filespecs rels (Suc i) obs = Inr (obs1, refs1)" and o: "obs' = ob' # obs1"
    and hd: "if dict_has ''Type'' (Some (PStr ''/Filespec'')) ob
     then \<exists>d c r. ob = ODict d \<and> map_of d ''CheckSum'' = Some c
            \<and> get_relationship rels c = Inr r
            \<and> ob' = ODict (AList.update ''AFRelationship'' (PStr (CHR ''/'' # r)) d)
            \<and> refs = PRef i # refs1
     else ob' = ob \<and> refs = refs1"
    by (rule tag_filespecs_Cons)
  have sub: "set refs1 \<subseteq> set refs"
    using hd by (auto split: if_splits)
  show ?case
  proof (cases j)
    case 0
    have len: "length obs' = length (ob # obs)"
    proof (cases obs)
      case Nil
      with rest o show ?thesis by simp
    next
      case (Cons a list)
      with Cons.IH[OF rest, of 0] o show ?thesis by simp
    qed
    with 0 o hd show ?thesis by (auto split: if_splits)
  next
    case (Suc j')
    with Cons.prems(2) have "j' < length obs" by simp
    from Cons.IH[OF rest this] Suc o sub show ?thesis
      by (auto split: if_splits)
  qed
qed

lemma tag_filespecs_length:
  "tag_filespecs rels i obs = Inr (obs', refs) \<Longrightarrow> length obs' = length obs"
  by (induction obs arbitrary: i obs' refs)
     (auto elim!: tag_filespecs_Cons)

lemma tag_filespecs_dict_has:
  assumes "tag_filespecs rels i obs = Inr (obs', refs)" "j < length obs" "a \<noteq> ''AFRelationship''"
  shows "dict_has a x (obs' ! j) = dict_has a x (obs ! j)"
  using tag_filespecs_nth[OF assms(1,2)] assms(3)
  by (auto simp: dict_has_update split: if_splits)



text \<open>What lines 38-59 do.\<close>

lemma add_af_cases:
  assumes "add_af atts p = Inr p3"
  obtains obs' refs where
    "tag_filespecs (relationships atts Map.empty) 0 (objects p) = Inr (obs', refs)"
    "(p3 = p\<lparr>objects := obs'\<rparr> \<and> refs = []) \<or>
     (\<exists>af. p3 = catalog_set ''AF'' (PArr af) (p\<lparr>objects := obs'\<rparr>) \<and> set refs \<subseteq> set af
        \<and> catalog (p\<lparr>objects := obs'\<rparr>) \<noteq> None)"
proof -
  from assms obtain cat named obs' refs where
    t: "tag_filespecs (relationships atts Map.empty) 0 (objects p) = Inr (obs', refs)"
    and rest: "(if named @ refs = [] then Inr (p\<lparr>objects := obs'\<rparr>)
         else (case catalog (p\<lparr>objects := obs'\<rparr>) of
                 None \<Rightarrow> Inl TypeError
               | Some cat1 \<Rightarrow>
                   (case map_of cat1 ''AF'' of
                      None \<Rightarrow> Inr (catalog_set ''AF'' (PArr (named @ refs)) (p\<lparr>objects := obs'\<rparr>))
                    | Some (PArr xs) \<Rightarrow>
                        Inr (catalog_set ''AF'' (PArr (xs @ named @ refs)) (p\<lparr>objects := obs'\<rparr>))
                    | Some _ \<Rightarrow> Inl AttributeError))) = Inr p3"
    by (auto simp: add_af_def Let_def split: option.splits sum.splits prod.splits)
  show ?thesis
  proof (cases "named @ refs = []")
    case True
    with rest have "p3 = p\<lparr>objects := obs'\<rparr> \<and> refs = []" by simp
    with t that show ?thesis by blast
  next
    case False
    with rest obtain cat1 where c: "catalog (p\<lparr>objects := obs'\<rparr>) = Some cat1"
      by (auto split: option.splits)
    from rest False c have
      "(\<exists>xs. p3 = catalog_set ''AF'' (PArr (xs @ named @ refs)) (p\<lparr>objects := obs'\<rparr>))"
      by (auto split: option.splits pval.splits intro: exI[of _ "[]"])
    then obtain xs where
      "p3 = catalog_set ''AF'' (PArr (xs @ named @ refs)) (p\<lparr>objects := obs'\<rparr>)" by blast
    moreover have "set refs \<subseteq> set (xs @ named @ refs)" by auto
    ultimately show ?thesis using t c that by blast
  qed
qed

lemma add_af_length:
  assumes "add_af atts p = Inr p3"
  shows "length (objects p3) = length (objects p) \<and> catalog_number p3 = catalog_number p"
  using assms
  by (rule add_af_cases)
     (auto simp: catalog_set_length catalog_set_number dest: tag_filespecs_length)

lemma add_af_dict_has:
  assumes "add_af atts p = Inr p3" "i < length (objects p)"
    and "a \<noteq> ''AFRelationship''" "a \<noteq> ''AF''"
  shows "dict_has a x (objects p3 ! i) = dict_has a x (objects p ! i)"
  using assms(1)
proof (cases rule: add_af_cases)
  case (1 obs' refs)
  from tag_filespecs_dict_has[OF 1(1) assms(2,3)] 1(2) assms(4)
  show ?thesis by (auto simp: catalog_set_dict_has)
qed


text \<open>The steps of \<^verbatim>\<open>pdfa\<close>.\<close>

lemma pdfa_cases:
  assumes "pdfa icc xml atts compress version p = Inr p'"
  obtains p2 p3 v where
    "p2 = catalog_set ''OutputIntents'' v
            (add_object (OStream [(''N'', PInt 3), (''Alternate'', PStr ''/DeviceRGB'')] [icc] compress) p)"
    "if 2 \<le> version then add_af atts p2 = Inr p3 else p3 = p2"
    "p' = add_metadata xml compress (p3\<lparr>objects := map print_annotation (objects p3)\<rparr>)"
  using assms
  by (auto simp: pdfa_def Let_def split: option.splits sum.splits if_splits)

lemma pdfa_first_dict_has:
  assumes "i < length (objects p)" "a \<noteq> ''OutputIntents''"
  shows "dict_has a x (objects (catalog_set ''OutputIntents'' v (add_object ob p)) ! i)
       = dict_has a x (objects p ! i)"
  using assms by (simp add: catalog_set_dict_has add_object_def nth_append)





text \<open>
  C9: when \<^verbatim>\<open>pdfa\<close> returns, for any version, every object of the document that is a
  dictionary with the \<^verbatim>\<open>Type\<close> \<^verbatim>\<open>/Annot\<close> has 4 under \<^verbatim>\<open>F\<close>; and every object that was such
  a dictionary before still is one, at the same place.
\<close>

theorem annotations_printed:
  assumes "pdfa icc xml atts compress version p = Inr p'"
  shows "(\<forall>i<length (objects p').
            dict_has ''Type'' (Some (PStr ''/Annot'')) (objects p' ! i) \<longrightarrow>
            dict_has ''F'' (Some (PInt 4)) (objects p' ! i))
       \<and> (\<forall>i<length (objects p).
            dict_has ''Type'' (Some (PStr ''/Annot'')) (objects p ! i) \<longrightarrow>
            dict_has ''Type'' (Some (PStr ''/Annot'')) (objects p' ! i))"
  using assms
proof (cases rule: pdfa_cases)
  case (1 p2 p3 v)
  let ?p4 = "p3\<lparr>objects := map print_annotation (objects p3)\<rparr>"
  have len2: "length (objects p2) = Suc (length (objects p))"
    unfolding 1(1) by (simp add: catalog_set_length add_object_def)
  have len3: "length (objects p3) = length (objects p2)"
    using 1(2) by (auto split: if_splits dest: add_af_length)
  have len': "length (objects p') = Suc (length (objects ?p4))"
    unfolding 1(3) by (rule add_metadata_length)
  show ?thesis
  proof (intro conjI allI impI)
    fix i
    assume i: "i < length (objects p')"
      and t: "dict_has ''Type'' (Some (PStr ''/Annot'')) (objects p' ! i)"
    show "dict_has ''F'' (Some (PInt 4)) (objects p' ! i)"
    proof (cases "i < length (objects ?p4)")
      case True
      then have i3: "i < length (objects p3)" by simp
      from t True have "dict_has ''Type'' (Some (PStr ''/Annot'')) (objects ?p4 ! i)"
        unfolding 1(3) by (simp add: add_metadata_dict_has)
      with i3 have "dict_has ''F'' (Some (PInt 4)) (objects ?p4 ! i)"
        by (simp add: print_annotation_printed)
      with True show ?thesis
        unfolding 1(3) by (simp add: add_metadata_dict_has)
    next
      case False
      with i len' have "i = length (objects ?p4)" by simp
      with t add_metadata_last[of "''Type''" "PStr ''/Annot''" xml compress ?p4]
      show ?thesis unfolding 1(3) by simp
    qed
  next
    fix i
    assume i: "i < length (objects p)"
      and t: "dict_has ''Type'' (Some (PStr ''/Annot'')) (objects p ! i)"
    from i t have "dict_has ''Type'' (Some (PStr ''/Annot'')) (objects p2 ! i)"
      unfolding 1(1) by (simp add: pdfa_first_dict_has)
    moreover from i len2 have i2: "i < length (objects p2)" by simp
    ultimately have "dict_has ''Type'' (Some (PStr ''/Annot'')) (objects p3 ! i)"
      using 1(2) by (auto split: if_splits simp: add_af_dict_has)
    with i2 len3 have "dict_has ''Type'' (Some (PStr ''/Annot'')) (objects ?p4 ! i)"
      by (simp add: print_annotation_dict_has)
    with i2 len3 show "dict_has ''Type'' (Some (PStr ''/Annot'')) (objects p' ! i)"
      unfolding 1(3) by (simp add: add_metadata_dict_has)
  qed
qed

theorem annotations_printed_witness:
  "pdfa ''icc'' ''xml'' demo_attachments True 1 demo_pdf
     = Inr \<lparr>objects =
        [OOther,
         ODict [(''Type'', PStr ''/Catalog''),
                (''OutputIntents'',
                 PArr [PDic [(''Type'', PStr ''/OutputIntent''), (''S'', PStr ''/GTS_PDFA1''),
                             (''OutputConditionIdentifier'', PString ''sRGB IEC61966-2.1''),
                             (''DestOutputProfile'', PRef 4)]]),
                (''Metadata'', PRef 5)],
         ODict [(''Type'', PStr ''/Filespec''), (''CheckSum'', PStr ''0cc175b9'')],
         ODict [(''Type'', PStr ''/Annot''), (''F'', PInt 4)],
         OStream [(''N'', PInt 3), (''Alternate'', PStr ''/DeviceRGB'')] [''icc''] True,
         OStream [(''Type'', PStr ''/Metadata''), (''Subtype'', PStr ''/XML'')] [''xml''] True],
        catalog_number = 1\<rparr>
   \<and> dict_has ''Type'' (Some (PStr ''/Annot'')) (objects demo_pdf ! 3)
   \<and> dict_has ''F'' (Some (PInt 0)) (objects demo_pdf ! 3)
   \<and> dict_has ''F'' (Some (PInt 4))
        (objects (projr (pdfa ''icc'' ''xml'' demo_attachments True 1 demo_pdf)) ! 3)"
proof -
  let ?p' = "\<lparr>objects =
        [OOther,
         ODict [(''Type'', PStr ''/Catalog''),
                (''OutputIntents'',
                 PArr [PDic [(''Type'', PStr ''/OutputIntent''), (''S'', PStr ''/GTS_PDFA1''),
                             (''OutputConditionIdentifier'', PString ''sRGB IEC61966-2.1''),
                             (''DestOutputProfile'', PRef 4)]]),
                (''Metadata'', PRef 5)],
         ODict [(''Type'', PStr ''/Filespec''), (''CheckSum'', PStr ''0cc175b9'')],
         ODict [(''Type'', PStr ''/Annot''), (''F'', PInt 4)],
         OStream [(''N'', PInt 3), (''Alternate'', PStr ''/DeviceRGB'')] [''icc''] True,
         OStream [(''Type'', PStr ''/Metadata''), (''Subtype'', PStr ''/XML'')] [''xml''] True],
        catalog_number = 1\<rparr>"
  have ev: "pdfa ''icc'' ''xml'' demo_attachments True 1 demo_pdf = Inr ?p'"
    by code_simp
  have t: "dict_has ''Type'' (Some (PStr ''/Annot'')) (objects demo_pdf ! 3)"
    "dict_has ''F'' (Some (PInt 0)) (objects demo_pdf ! 3)"
    by (simp_all add: dict_has_def demo_pdf_def)
  have l: "3 < length (objects demo_pdf)" "3 < length (objects ?p')"
    by (simp_all add: demo_pdf_def)
  from annotations_printed[OF ev] l t
  have "dict_has ''F'' (Some (PInt 4)) (objects ?p' ! 3)" by blast
  with ev t show ?thesis by simp
qed



end
